theory Spec2Isabelle
  imports Main
begin

section \<open>Strings\<close>

text \<open>
  Source strings are modelled as \<^typ>\<open>string\<close>: a character is a code unit below
  256.  The string methods of the platform that the program calls are written out
  below for these code units; the code units from 256 on are outside the model.
\<close>

definition isUpperAscii :: "char \<Rightarrow> bool" where
  "isUpperAscii c = (65 \<le> (of_char c :: nat) \<and> (of_char c :: nat) \<le> 90)"

definition isLowerAscii :: "char \<Rightarrow> bool" where
  "isLowerAscii c = (97 \<le> (of_char c :: nat) \<and> (of_char c :: nat) \<le> 122)"

text \<open>The capital letters from 192 to 222; 215 is the multiplication sign.\<close>

definition isUpperLatin :: "char \<Rightarrow> bool" where
  "isUpperLatin c =
     (192 \<le> (of_char c :: nat) \<and> (of_char c :: nat) \<le> 222 \<and> (of_char c :: nat) \<noteq> 215)"

definition lowerChar :: "char \<Rightarrow> char" where
  "lowerChar c =
     (if isUpperAscii c \<or> isUpperLatin c then char_of ((of_char c :: nat) + 32) else c)"

text \<open>\<^verbatim>\<open>String.prototype.toLowerCase\<close>\<close>

definition toLowerCase :: "string \<Rightarrow> string" where
  "toLowerCase s = map lowerChar s"

text \<open>\<^verbatim>\<open>String.prototype.split\<close> with a one-character separator: never the empty array.\<close>

fun splitStr :: "char \<Rightarrow> string \<Rightarrow> string list" where
  "splitStr sep [] = [[]]"
| "splitStr sep (c # cs) =
     (if c = sep then [] # splitStr sep cs
      else (case splitStr sep cs of
              [] \<Rightarrow> [[c]]
            | w # ws \<Rightarrow> (c # w) # ws))"

text \<open>\<^verbatim>\<open>Array.prototype.pop\<close>: the last element, \<open>undefined\<close> on the empty array.\<close>

definition pop :: "'a list \<Rightarrow> 'a option" where
  "pop xs = (if xs = [] then None else Some (last xs))"

section \<open>Data model\<close>

record ProjectFile =
  name :: string
  content :: string
  language :: string
  documentedContent :: "string option"
  error :: "string option"
  isIncluded :: bool

datatype AppState = uploading | loading | reviewing

datatype DocLanguage = en | ru

datatype Project = main | frontend

section \<open>getFileLanguage\<close>

definition getFileLanguage :: "string \<Rightarrow> string" where
  "getFileLanguage fileName =
     (let extension = map_option toLowerCase (pop (splitStr (CHR ''.'') fileName))
      in if extension = Some ''js'' then ''JavaScript''
         else if extension = Some ''ts'' then ''TypeScript''
         else if extension = Some ''py'' then ''Python''
         else if extension = Some ''java'' then ''Java''
         else if extension = Some ''go'' then ''Go''
         else if extension = Some ''gs'' then ''Google Apps Script''
         else ''code'')"

section \<open>More string methods\<close>

text \<open>
  White space and line terminators, as \<^verbatim>\<open>String.prototype.trim\<close> strips them: tab,
  line feed, vertical tab, form feed, carriage return, space and the no-break space.
\<close>

definition isWhiteSpace :: "char \<Rightarrow> bool" where
  "isWhiteSpace c = ((of_char c :: nat) \<in> {9, 10, 11, 12, 13, 32, 160})"

definition trim :: "string \<Rightarrow> string" where
  "trim s = rev (dropWhile isWhiteSpace (rev (dropWhile isWhiteSpace s)))"

definition startsWith :: "string \<Rightarrow> string \<Rightarrow> bool" where
  "startsWith s p = (take (length p) s = p)"

text \<open>\<^verbatim>\<open>String.prototype.includes\<close>: \<open>sub\<close> occurs somewhere in \<open>s\<close>.\<close>

fun includesStr :: "string \<Rightarrow> string \<Rightarrow> bool" where
  "includesStr [] sub = (sub = [])"
| "includesStr (c # cs) sub = (startsWith (c # cs) sub \<or> includesStr cs sub)"

text \<open>\<^verbatim>\<open>Array.prototype.join\<close> on an array of strings.\<close>

fun join :: "string \<Rightarrow> string list \<Rightarrow> string" where
  "join sep [] = []"
| "join sep [x] = x"
| "join sep (x # y # ys) = x @ sep @ join sep (y # ys)"

text \<open>A number in a template literal: its decimal digits.\<close>

fun showNat :: "nat \<Rightarrow> string" where
  "showNat n =
     (if n < 10 then [char_of (48 + n)]
      else showNat (n div 10) @ [char_of (48 + n mod 10)])"

declare showNat.simps [simp del]

section \<open>Values of the platform\<close>

text \<open>
  The values \<^verbatim>\<open>JSON.parse\<close> can return, and \<open>undefined\<close>, which reading an absent
  property gives.  A number is kept as the two observations the program can make of
  it: whether it is zero, and the text it converts to.  An object is the list of its
  members in the order of the text; a later member of the same key wins.
\<close>

datatype jsvalue =
    JUndefined
  | JNull
  | JBool bool
  | JNum bool string
  | JStr string
  | JArr "jsvalue list"
  | JObj "(string \<times> jsvalue) list"

text \<open>What a \<^verbatim>\<open>catch\<close> receives: an instance of \<open>Error\<close> with its message, or any other value.\<close>

datatype thrown = Error string | NonError

fun truthy :: "jsvalue \<Rightarrow> bool" where
  "truthy JUndefined = False"
| "truthy JNull = False"
| "truthy (JBool b) = b"
| "truthy (JNum isZero shown) = (\<not> isZero)"
| "truthy (JStr s) = (s \<noteq> [])"
| "truthy (JArr xs) = True"
| "truthy (JObj kvs) = True"

text \<open>
  Reading the property \<open>key\<close>, for the keys \<open>error\<close> and \<open>message\<close> the program
  reads (no prototype defines them): \<open>None\<close> is the \<open>TypeError\<close> of reading a
  property of \<open>null\<close> or \<open>undefined\<close>.
\<close>

fun getProp :: "jsvalue \<Rightarrow> string \<Rightarrow> jsvalue option" where
  "getProp JUndefined key = None"
| "getProp JNull key = None"
| "getProp (JObj kvs) key =
     (case map_of (rev kvs) key of None \<Rightarrow> Some JUndefined | Some v \<Rightarrow> Some v)"
| "getProp v key = Some JUndefined"

text \<open>
  The conversion to a string that a template literal applies.  An object whose own
  member \<open>toString\<close> hides the inherited method cannot be converted (\<open>None\<close>, a
  \<open>TypeError\<close>); an array joins its elements with commas, \<open>null\<close> as the empty string.
\<close>

fun toString :: "jsvalue \<Rightarrow> string option" where
  "toString JUndefined = Some ''undefined''"
| "toString JNull = Some ''null''"
| "toString (JBool b) = Some (if b then ''true'' else ''false'')"
| "toString (JNum isZero shown) = Some shown"
| "toString (JStr s) = Some s"
| "toString (JArr xs) =
     map_option (join '','')
       (those (map (\<lambda>x. if x = JNull \<or> x = JUndefined then Some [] else toString x) xs))"
| "toString (JObj kvs) =
     (if ''toString'' \<in> fst ` set kvs then None else Some ''[object Object]'')"

section \<open>The documentation service\<close>

subsection \<open>The request and its outcome\<close>

datatype Policy = englishPolicy | russianPolicy

text \<open>
  The request sent to \<^verbatim>\<open>ai.models.generateContent\<close>.  The system instruction is a fixed
  template; the record keeps the four values the template is filled with.
\<close>

record Request =
  model :: string
  contents :: string
  instructionLanguage :: string
  instructionDocumentationLanguage :: string
  instructionProjectContext :: string
  instructionPolicy :: Policy

text \<open>
  What the \<^verbatim>\<open>try\<close> block around the call ends with: the text of the response, or a
  thrown value (the call rejecting, or a response without text, whose \<^verbatim>\<open>trim\<close> is a
  \<open>TypeError\<close>).
\<close>

datatype Outcome = Resolved string | Rejected thrown

subsection \<open>The fence pattern\<close>

definition isAsciiLetter :: "char \<Rightarrow> bool" where
  "isAsciiLetter c = (isLowerAscii c \<or> isUpperAscii c)"

definition fence :: string where
  "fence = [CHR 0x60, CHR 0x60, CHR 0x60]"

text \<open>The first alternative that succeeds, in the order a backtracking matcher tries them.\<close>

fun firstSome :: "'a option list \<Rightarrow> 'a option" where
  "firstSome [] = None"
| "firstSome (None # xs) = firstSome xs"
| "firstSome (Some x # xs) = Some x"

text \<open>
  \<^verbatim>\<open>([\s\S]*)```$\<close>: the group takes as many characters as it can and gives them back
  one at a time until the closing fence and the end of the input follow.
\<close>

definition matchCapture :: "string \<Rightarrow> string option" where
  "matchCapture rest =
     firstSome (map (\<lambda>m. if drop m rest = fence then Some (take m rest) else None)
                    (rev [0..<Suc (length rest)]))"

text \<open>\<^verbatim>\<open>\n?\<close>: with the newline first, then without.\<close>

definition matchNewline :: "string \<Rightarrow> string option" where
  "matchNewline rest =
     firstSome ((case rest of
                   c # cs \<Rightarrow> if c = CHR 0x0A then [matchCapture cs] else []
                 | [] \<Rightarrow> [])
                @ [matchCapture rest])"

text \<open>\<^verbatim>\<open>(?:[a-zA-Z]*)?\<close>: the longest run of letters first, then each shorter one.\<close>

definition matchTag :: "string \<Rightarrow> string option" where
  "matchTag rest =
     firstSome (map (\<lambda>n. matchNewline (drop n rest))
                    (rev [0..<Suc (length (takeWhile isAsciiLetter rest))]))"

text \<open>
  \<^verbatim>\<open>documentedScript.match(codeBlockRegex)\<close> for the pattern
  \<^verbatim>\<open>^```(?:[a-zA-Z]*)?\n?([\s\S]*)```$\<close>: the first capture group of the match, \<open>None\<close> when
  there is no match.
\<close>

definition codeBlockRegex_match :: "string \<Rightarrow> string option" where
  "codeBlockRegex_match s =
     (if take 3 s = fence then matchTag (drop 3 s) else None)"

text \<open>Lines 79 to 86: what is returned for a response text.\<close>

definition postProcess :: "string \<Rightarrow> string" where
  "postProcess text =
     (let documentedScript = trim text
      in case codeBlockRegex_match documentedScript of
           Some group1 \<Rightarrow> trim group1
         | None \<Rightarrow> documentedScript)"

subsection \<open>The failure mapping\<close>

definition unexpectedMessage :: "string \<Rightarrow> string" where
  "unexpectedMessage message = ''An unexpected error occurred: '' @ message"

definition unknownMessage :: string where
  "unknownMessage = ''An unknown error occurred while communicating with the AI model.''"

definition remediationHint :: string where
  "remediationHint = CHR 0x0A # ''This could be a temporary issue with the AI service or the request might be too large. Please try again later or with fewer files.''"

text \<open>
  Lines 95 to 105, for an error message \<open>message\<close>: \<open>parse\<close> is \<^verbatim>\<open>JSON.parse\<close>
  (\<open>None\<close> its \<open>SyntaxError\<close>).  Whatever is thrown inside the inner \<^verbatim>\<open>try\<close> ends in
  its \<^verbatim>\<open>catch\<close>.
\<close>

definition parsedMessage :: "(string \<Rightarrow> jsvalue option) \<Rightarrow> string \<Rightarrow> string" where
  "parsedMessage parse message =
     (case parse message of
        None \<Rightarrow> unexpectedMessage message
      | Some parsed \<Rightarrow>
          (case getProp parsed ''error'' of
             None \<Rightarrow> unexpectedMessage message
           | Some err \<Rightarrow>
               if \<not> truthy err then unexpectedMessage message
               else (case getProp err ''message'' of
                       None \<Rightarrow> unexpectedMessage message
                     | Some m \<Rightarrow>
                         if \<not> truthy m then unexpectedMessage message
                         else (case toString m of
                                 None \<Rightarrow> unexpectedMessage message
                               | Some shown \<Rightarrow> ''The AI model returned an error: '' @ shown))))"

text \<open>Lines 91 to 110: the message of the \<open>Error\<close> that is thrown for a caught value.\<close>

definition failureMessage :: "(string \<Rightarrow> jsvalue option) \<Rightarrow> thrown \<Rightarrow> string" where
  "failureMessage parse caught =
     (let finalMessage =
            (case caught of
               Error message \<Rightarrow> if message \<noteq> [] then parsedMessage parse message else unknownMessage
             | NonError \<Rightarrow> unknownMessage)
      in if includesStr finalMessage ''500'' \<or> includesStr finalMessage ''Rpc failed''
         then finalMessage @ remediationHint
         else finalMessage)"

subsection \<open>generateDocumentation\<close>

text \<open>
  \<open>ai\<close> is the external call.  The result is what the function returns (\<open>Inr\<close>) or
  throws (\<open>Inl\<close>), with the list of the requests it has sent.
\<close>

definition generateDocumentation ::
  "(string \<Rightarrow> jsvalue option) \<Rightarrow> (Request \<Rightarrow> Outcome) \<Rightarrow>
   string \<Rightarrow> string \<Rightarrow> string \<Rightarrow> DocLanguage \<Rightarrow> (thrown + string) \<times> Request list" where
  "generateDocumentation parse ai script lang projectContext docLang =
     (if lang = ''code'' \<or> length (trim script) = 0 then (Inr script, [])
      else
        let documentationLanguage = (if docLang = ru then ''Russian'' else ''English'');
            policy = (if docLang = ru then russianPolicy else englishPolicy);
            request = \<lparr> model = ''gemini-2.5-flash'', contents = script,
                        instructionLanguage = lang,
                        instructionDocumentationLanguage = documentationLanguage,
                        instructionProjectContext = projectContext,
                        instructionPolicy = policy \<rparr>
        in case ai request of
             Resolved text \<Rightarrow> (Inr (postProcess text), [request])
           | Rejected caught \<Rightarrow> (Inl (Error (failureMessage parse caught)), [request]))"

section \<open>The application\<close>

text \<open>
  The state of the \<open>App\<close> component.  \<open>isCancelledRef\<close> is the \<open>current\<close> value of
  the ref.
\<close>

record App =
  mainProjectFiles :: "ProjectFile list"
  frontendProjectFiles :: "ProjectFile list"
  appState :: AppState
  docLanguage :: DocLanguage
  processingMessage :: string
  isCancelledRef :: bool

definition initialApp :: App where
  "initialApp = \<lparr> mainProjectFiles = [], frontendProjectFiles = [], appState = uploading,
                    docLanguage = en, processingMessage = [], isCancelledRef = False \<rparr>"

definition projectFilesOf :: "Project \<Rightarrow> App \<Rightarrow> ProjectFile list" where
  "projectFilesOf project app =
     (if project = main then mainProjectFiles app else frontendProjectFiles app)"

definition setProjectFiles :: "Project \<Rightarrow> ProjectFile list \<Rightarrow> App \<Rightarrow> App" where
  "setProjectFiles project fs app =
     (if project = main then app\<lparr>mainProjectFiles := fs\<rparr>
      else app\<lparr>frontendProjectFiles := fs\<rparr>)"

subsection \<open>handleFilesUpload\<close>

text \<open>
  The argument is the list of the names of the uploaded files.  Their text arrives later,
  one \<open>onload\<close> event per file (\<open>contentLoaded\<close>).
\<close>

definition newProjectFile :: "string \<Rightarrow> ProjectFile" where
  "newProjectFile fileName =
     \<lparr> name = fileName, content = [], language = getFileLanguage fileName,
       documentedContent = None, error = None, isIncluded = True \<rparr>"

definition handleFilesUpload :: "Project \<Rightarrow> string list \<Rightarrow> App \<Rightarrow> App" where
  "handleFilesUpload project fileNames app =
     setProjectFiles project (map newProjectFile fileNames) app"

definition contentLoaded :: "Project \<Rightarrow> nat \<Rightarrow> string \<Rightarrow> App \<Rightarrow> App" where
  "contentLoaded project index text app =
     (let fs = projectFilesOf project app
      in if index < length fs
         then setProjectFiles project (fs[index := (fs ! index)\<lparr>content := text\<rparr>]) app
         else app)"

subsection \<open>handleCancel, toggleFileInclusion, handleReset\<close>

definition handleCancel :: "App \<Rightarrow> App" where
  "handleCancel app = app\<lparr>isCancelledRef := True\<rparr>"

definition toggleFileInclusion :: "Project \<Rightarrow> string \<Rightarrow> App \<Rightarrow> App" where
  "toggleFileInclusion projectName fileName app =
     (let fs = projectFilesOf projectName app;
          updatedFiles = map (\<lambda>f. if name f = fileName
                                   then f\<lparr>isIncluded := \<not> isIncluded f\<rparr> else f) fs
      in setProjectFiles projectName updatedFiles app)"

definition handleReset :: "App \<Rightarrow> App" where
  "handleReset app =
     app\<lparr>mainProjectFiles := [], frontendProjectFiles := [], appState := uploading\<rparr>"

subsection \<open>handleAnalyze\<close>

text \<open>
  What the run meets outside the program: \<^verbatim>\<open>JSON.parse\<close>, the outcome of the external
  call made for the file at position \<open>i\<close>, and whether Cancel is pressed while the run
  is suspended in the \<^verbatim>\<open>await\<close> of that file.
\<close>

record Env =
  JSON_parse :: "string \<Rightarrow> jsvalue option"
  generateContent :: "nat \<Rightarrow> Request \<Rightarrow> Outcome"
  cancelPressed :: "nat \<Rightarrow> bool"

text \<open>Lines 75 to 86.\<close>

definition buildContext :: "ProjectFile list \<Rightarrow> string" where
  "buildContext allFiles =
     (let readmeFile = find (\<lambda>f. startsWith (toLowerCase (name f)) ''readme'') allFiles;
          changelogFile = find (\<lambda>f. startsWith (toLowerCase (name f)) ''changelog'') allFiles;
          c0 = ''This project contains the following files:'' @ [CHR 0x0A]
                 @ join [CHR 0x0A] (map (\<lambda>f. ''- '' @ name f) allFiles);
          c1 = (case readmeFile of
                  Some f \<Rightarrow> c0 @ [CHR 0x0A, CHR 0x0A] @ ''--- PROJECT README ---'' @ [CHR 0x0A]
                              @ content f @ [CHR 0x0A] @ ''--- END README ---''
                | None \<Rightarrow> c0)
      in case changelogFile of
           Some f \<Rightarrow> c1 @ [CHR 0x0A, CHR 0x0A] @ ''--- PROJECT CHANGELOG ---'' @ [CHR 0x0A]
                       @ content f @ [CHR 0x0A] @ ''--- END CHANGELOG ---''
         | None \<Rightarrow> c1)"

text \<open>
  The state of the loop: the array \<open>allFiles\<close>, whose elements are the very objects
  of the two groupings, the cancellation flag, and two logs: every argument given to
  \<open>setProcessingMessage\<close>, and every request sent to the service.
\<close>

record Run =
  files :: "ProjectFile list"
  cancelled :: bool
  messages :: "string list"
  requests :: "Request list"

definition progressMessage :: "nat \<Rightarrow> nat \<Rightarrow> ProjectFile \<Rightarrow> string" where
  "progressMessage i totalFiles file =
     ''Analyzing '' @ showNat (i + 1) @ ''/'' @ showNat totalFiles @ '': '' @ name file"

text \<open>The message the \<^verbatim>\<open>catch\<close> of line 104 stores.\<close>

definition caughtMessage :: "thrown \<Rightarrow> string" where
  "caughtMessage err = (case err of Error message \<Rightarrow> message
                                  | NonError \<Rightarrow> ''An unknown error occurred.'')"


text \<open>Line 102: the call made for the file at position \<open>i\<close>.\<close>

definition awaited ::
  "Env \<Rightarrow> string \<Rightarrow> DocLanguage \<Rightarrow> nat \<Rightarrow> ProjectFile \<Rightarrow> (thrown + string) \<times> Request list" where
  "awaited env ctx docLang i file =
     generateDocumentation (JSON_parse env) (generateContent env i)
       (content file) (language file) ctx docLang"

text \<open>
  Lines 94 to 107: the body of the loop for position \<open>i\<close>, once the cancellation check
  has passed.  Cancel can only be pressed while the body waits for
  \<open>generateDocumentation\<close>.
\<close>

definition iteration :: "Env \<Rightarrow> string \<Rightarrow> DocLanguage \<Rightarrow> nat \<Rightarrow> nat \<Rightarrow> Run \<Rightarrow> Run" where
  "iteration env ctx docLang totalFiles i r =
     (let file = files r ! i;
          r1 = r\<lparr>messages := messages r @ [progressMessage i totalFiles file]\<rparr>
      in if language file = ''code''
         then r1\<lparr>files := (files r1)[i := file\<lparr>documentedContent := Some (content file)\<rparr>]\<rparr>
         else
           (case awaited env ctx docLang i file of
              (outcome, sent) \<Rightarrow>
                let r2 = r1\<lparr>requests := requests r1 @ sent,
                            cancelled := (cancelled r1 \<or> cancelPressed env i)\<rparr>
                in (case outcome of
                      Inr result \<Rightarrow>
                        r2\<lparr>files := (files r2)[i := file\<lparr>documentedContent := Some result\<rparr>]\<rparr>
                    | Inl err \<Rightarrow>
                        r2\<lparr>files := (files r2)[i := file\<lparr>error := Some (caughtMessage err)\<rparr>]\<rparr>)))"

text \<open>Lines 90 to 108, from position \<open>i\<close> on.\<close>

function loop :: "Env \<Rightarrow> string \<Rightarrow> DocLanguage \<Rightarrow> nat \<Rightarrow> nat \<Rightarrow> Run \<Rightarrow> Run" where
  "loop env ctx docLang totalFiles i r =
     (if i < totalFiles
      then (if cancelled r then r
            else loop env ctx docLang totalFiles (Suc i) (iteration env ctx docLang totalFiles i r))
      else r)"
  by pat_completeness auto
termination
  by (relation "measure (\<lambda>(env, ctx, docLang, totalFiles, i, r). totalFiles - i)") auto

declare loop.simps [simp del]

text \<open>The states the loop passes through, one at each evaluation of its condition.\<close>

function loopStates :: "Env \<Rightarrow> string \<Rightarrow> DocLanguage \<Rightarrow> nat \<Rightarrow> nat \<Rightarrow> Run \<Rightarrow> Run list" where
  "loopStates env ctx docLang totalFiles i r =
     (if i < totalFiles
      then (if cancelled r then [r]
            else r # loopStates env ctx docLang totalFiles (Suc i)
                       (iteration env ctx docLang totalFiles i r))
      else [r])"
  by pat_completeness auto
termination
  by (relation "measure (\<lambda>(env, ctx, docLang, totalFiles, i, r). totalFiles - i)") auto

declare loopStates.simps [simp del]

text \<open>
  What a call of \<open>handleAnalyze\<close> leaves besides the new state: the project context,
  if the call came to build it, every argument given to \<open>setProcessingMessage\<close>, and
  every request sent.
\<close>

record Trace =
  builtContext :: "string option"
  progressLog :: "string list"
  requestLog :: "Request list"

definition startRun :: "App \<Rightarrow> Run" where
  "startRun app = \<lparr> files = mainProjectFiles app @ frontendProjectFiles app,
                     cancelled = False, messages = [], requests = [] \<rparr>"

text \<open>
  The application while the loop is in state \<open>r\<close>: the objects of \<open>allFiles\<close> are those
  of the two groupings, so the groupings show every change made to them.
\<close>

definition duringRun :: "App \<Rightarrow> Run \<Rightarrow> App" where
  "duringRun app r =
     app\<lparr>mainProjectFiles := take (length (mainProjectFiles app)) (files r),
         frontendProjectFiles := drop (length (mainProjectFiles app)) (files r),
         appState := loading,
         processingMessage := (if messages r = [] then processingMessage app
                               else last (messages r)),
         isCancelledRef := cancelled r\<rparr>"

definition handleAnalyze :: "Env \<Rightarrow> App \<Rightarrow> App \<times> Trace" where
  "handleAnalyze env app =
     (let allFiles = mainProjectFiles app @ frontendProjectFiles app
      in if length allFiles = 0
         then (app\<lparr>isCancelledRef := False, appState := uploading\<rparr>,
               \<lparr> builtContext = None, progressLog = [], requestLog = [] \<rparr>)
         else
           let detailedProjectContext = buildContext allFiles;
               totalFiles = length allFiles;
               r = loop env detailedProjectContext (docLanguage app) totalFiles 0 (startRun app)
           in ((duringRun app r)\<lparr>processingMessage := [], appState := reviewing\<rparr>,
               \<lparr> builtContext = Some detailedProjectContext,
                 progressLog = messages r @ [[]],
                 requestLog = requests r \<rparr>))"

text \<open>The states of the application during a call of \<open>handleAnalyze\<close>.\<close>

definition analyzeStates :: "Env \<Rightarrow> App \<Rightarrow> App list" where
  "analyzeStates env app =
     (let allFiles = mainProjectFiles app @ frontendProjectFiles app
      in if length allFiles = 0 then []
         else map (duringRun app)
                (loopStates env (buildContext allFiles) (docLanguage app) (length allFiles) 0
                   (startRun app)))"

section \<open>A reader of JSON texts\<close>

text \<open>
  The general results below hold for every function in the place of \<^verbatim>\<open>JSON.parse\<close>.
  The concrete instances need its value on a given text; \<open>jsonParse\<close> reads the texts
  made of objects, arrays, strings with the single-character escapes, the three literal
  names and integers of at most fifteen digits, which is all the instances use.  On any
  other text it gives \<open>None\<close>, and nothing is claimed for it there.
\<close>

definition isJsonSpace :: "char \<Rightarrow> bool" where
  "isJsonSpace c = ((of_char c :: nat) \<in> {9, 10, 13, 32})"

definition isDigit :: "char \<Rightarrow> bool" where
  "isDigit c = (48 \<le> (of_char c :: nat) \<and> (of_char c :: nat) \<le> 57)"

definition unescape :: "char \<Rightarrow> char option" where
  "unescape c =
     (if c = CHR 0x22 \<or> c = CHR 0x5C \<or> c = CHR ''/'' then Some c
      else if c = CHR ''b'' then Some (CHR 0x08)
      else if c = CHR ''f'' then Some (CHR 0x0C)
      else if c = CHR ''n'' then Some (CHR 0x0A)
      else if c = CHR ''r'' then Some (CHR 0x0D)
      else if c = CHR ''t'' then Some (CHR 0x09)
      else None)"

text \<open>The characters of a string up to its closing quote, and what follows it.\<close>

fun readChars :: "string \<Rightarrow> (string \<times> string) option" where
  "readChars [] = None"
| "readChars [c] = (if c = CHR 0x22 then Some ([], []) else None)"
| "readChars (c # d # cs) =
     (if c = CHR 0x22 then Some ([], d # cs)
      else if c = CHR 0x5C then
        (case unescape d of
           None \<Rightarrow> None
         | Some e \<Rightarrow> map_option (\<lambda>(s, rest). (e # s, rest)) (readChars cs))
      else if (of_char c :: nat) < 32 then None
      else map_option (\<lambda>(s, rest). (c # s, rest)) (readChars (d # cs)))"

text \<open>An integer: an optional minus sign and digits without a leading zero.\<close>

definition readInteger :: "string \<Rightarrow> (jsvalue \<times> string) option" where
  "readInteger s =
     (let negative = (s \<noteq> [] \<and> hd s = CHR ''-'');
          body = (if negative then tl s else s);
          digits = takeWhile isDigit body;
          rest = dropWhile isDigit body
      in if digits = [] \<or> 15 < length digits \<or> (1 < length digits \<and> hd digits = CHR ''0'')
            \<or> (rest \<noteq> [] \<and> hd rest \<in> {CHR ''.'', CHR ''e'', CHR ''E''})
         then None
         else if digits = ''0'' then Some (JNum True ''0'', rest)
         else Some (JNum False ((if negative then ''-'' else []) @ digits), rest))"

text \<open>
  A value at the head of the text; the elements of an array after its bracket; the
  members of an object after its brace.  The first argument bounds the number of calls.
\<close>

fun readValue :: "nat \<Rightarrow> string \<Rightarrow> (jsvalue \<times> string) option"
  and readElements :: "nat \<Rightarrow> string \<Rightarrow> (jsvalue list \<times> string) option"
  and readMembers :: "nat \<Rightarrow> string \<Rightarrow> ((string \<times> jsvalue) list \<times> string) option"
where
  "readValue 0 s = None"
| "readValue (Suc n) s =
     (case dropWhile isJsonSpace s of
        [] \<Rightarrow> None
      | c # cs \<Rightarrow>
          if c = CHR 0x22 then map_option (\<lambda>(str, rest). (JStr str, rest)) (readChars cs)
          else if c = CHR ''['' then
            (case dropWhile isJsonSpace cs of
               [] \<Rightarrow> None
             | d # ds \<Rightarrow> if d = CHR '']'' then Some (JArr [], ds)
                         else map_option (\<lambda>(xs, rest). (JArr xs, rest)) (readElements n cs))
          else if c = CHR ''{'' then
            (case dropWhile isJsonSpace cs of
               [] \<Rightarrow> None
             | d # ds \<Rightarrow> if d = CHR ''}'' then Some (JObj [], ds)
                         else map_option (\<lambda>(kvs, rest). (JObj kvs, rest)) (readMembers n cs))
          else if take 4 (c # cs) = ''true'' then Some (JBool True, drop 4 (c # cs))
          else if take 5 (c # cs) = ''false'' then Some (JBool False, drop 5 (c # cs))
          else if take 4 (c # cs) = ''null'' then Some (JNull, drop 4 (c # cs))
          else readInteger (c # cs))"
| "readElements 0 s = None"
| "readElements (Suc n) s =
     (case readValue n s of
        None \<Rightarrow> None
      | Some (v, rest) \<Rightarrow>
          (case dropWhile isJsonSpace rest of
             [] \<Rightarrow> None
           | c # cs \<Rightarrow>
               if c = CHR '']'' then Some ([v], cs)
               else if c = CHR '','' then
                 map_option (\<lambda>(vs, rest'). (v # vs, rest')) (readElements n cs)
               else None))"
| "readMembers 0 s = None"
| "readMembers (Suc n) s =
     (case dropWhile isJsonSpace s of
        [] \<Rightarrow> None
      | q # qs \<Rightarrow>
          if q \<noteq> CHR 0x22 then None
          else
            (case readChars qs of
               None \<Rightarrow> None
             | Some (key, afterKey) \<Rightarrow>
                 (case dropWhile isJsonSpace afterKey of
                    [] \<Rightarrow> None
                  | colon # afterColon \<Rightarrow>
                      if colon \<noteq> CHR '':'' then None
                      else
                        (case readValue n afterColon of
                           None \<Rightarrow> None
                         | Some (v, rest) \<Rightarrow>
                             (case dropWhile isJsonSpace rest of
                                [] \<Rightarrow> None
                              | c # cs \<Rightarrow>
                                  if c = CHR ''}'' then Some ([(key, v)], cs)
                                  else if c = CHR '','' then
                                    map_option (\<lambda>(kvs, rest'). ((key, v) # kvs, rest'))
                                      (readMembers n cs)
                                  else None)))))"

definition jsonParse :: "string \<Rightarrow> jsvalue option" where
  "jsonParse s =
     (case readValue (2 * length s + 2) s of
        None \<Rightarrow> None
      | Some (v, rest) \<Rightarrow> if dropWhile isJsonSpace rest = [] then Some v else None)"

section \<open>Notions used in the results\<close>

text \<open>The combined list a run walks: grouping main, then grouping frontend.\<close>

definition allFilesOf :: "App \<Rightarrow> ProjectFile list" where
  "allFilesOf app = mainProjectFiles app @ frontendProjectFiles app"

text \<open>The three states of a file record.\<close>

definition isDocumented :: "ProjectFile \<Rightarrow> bool" where
  "isDocumented f = (documentedContent f \<noteq> None \<and> error f = None)"

definition isFailed :: "ProjectFile \<Rightarrow> bool" where
  "isFailed f = (error f \<noteq> None \<and> documentedContent f = None)"

definition isUnprocessed :: "ProjectFile \<Rightarrow> bool" where
  "isUnprocessed f = (documentedContent f = None \<and> error f = None)"

text \<open>Cancel is pressed during the processing of the file at position \<open>i\<close> of \<open>fs\<close>.\<close>

definition cancelledDuring :: "Env \<Rightarrow> ProjectFile list \<Rightarrow> nat \<Rightarrow> bool" where
  "cancelledDuring env fs i = (language (fs ! i) \<noteq> ''code'' \<and> cancelPressed env i)"

text \<open>The record of a file once the loop body has run for it at position \<open>i\<close>.\<close>

definition processed :: "Env \<Rightarrow> string \<Rightarrow> DocLanguage \<Rightarrow> nat \<Rightarrow> ProjectFile \<Rightarrow> ProjectFile" where
  "processed env ctx docLang i file =
     (if language file = ''code'' then file\<lparr>documentedContent := Some (content file)\<rparr>
      else (case fst (awaited env ctx docLang i file) of
              Inr result \<Rightarrow> file\<lparr>documentedContent := Some result\<rparr>
            | Inl err \<Rightarrow> file\<lparr>error := Some (caughtMessage err)\<rparr>))"

text \<open>The requests the loop body sends for the file at position \<open>i\<close>.\<close>

definition requestsFor :: "Env \<Rightarrow> string \<Rightarrow> DocLanguage \<Rightarrow> nat \<Rightarrow> ProjectFile \<Rightarrow> Request list" where
  "requestsFor env ctx docLang i file =
     (if language file = ''code'' then [] else snd (awaited env ctx docLang i file))"

text \<open>
  The number of files a run over \<open>fs\<close> processes: all of them, or those up to and
  including the first one during whose processing Cancel is pressed.
\<close>

definition processedCount :: "Env \<Rightarrow> ProjectFile list \<Rightarrow> nat" where
  "processedCount env fs =
     (case find (cancelledDuring env fs) [0..<length fs] of
        None \<Rightarrow> length fs
      | Some l \<Rightarrow> Suc l)"

text \<open>The state of the loop over \<open>fs\<close> once its body has run for the first \<open>k\<close> files.\<close>

definition stateAfter :: "Env \<Rightarrow> string \<Rightarrow> DocLanguage \<Rightarrow> ProjectFile list \<Rightarrow> nat \<Rightarrow> Run" where
  "stateAfter env ctx docLang fs k =
     \<lparr> files = map (\<lambda>j. processed env ctx docLang j (fs ! j)) [0..<k] @ drop k fs,
       cancelled = (\<exists>l\<in>set [0..<k]. cancelledDuring env fs l),
       messages = map (\<lambda>j. progressMessage j (length fs) (fs ! j)) [0..<k],
       requests = concat (map (\<lambda>j. requestsFor env ctx docLang j (fs ! j)) [0..<k]) \<rparr>"





text \<open>
  The states the application can be in.  The component offers the upload zones, the
  language buttons and the Analyze button only in state \<open>uploading\<close>, the Cancel button
  only in state \<open>loading\<close>, the check boxes and the reset button only in state
  \<open>reviewing\<close>.  The text of an uploaded file is taken to arrive outside a run.
\<close>

inductive reachable :: "App \<Rightarrow> bool" where
  initial: "reachable initialApp"
| upload: "reachable app \<Longrightarrow> appState app = uploading \<Longrightarrow>
     reachable (handleFilesUpload project fileNames app)"
| fileRead: "reachable app \<Longrightarrow> appState app \<noteq> loading \<Longrightarrow>
     reachable (contentLoaded project index text app)"
| language: "reachable app \<Longrightarrow> appState app = uploading \<Longrightarrow>
     reachable (app\<lparr>docLanguage := docLang\<rparr>)"
| running: "reachable app \<Longrightarrow> appState app = uploading \<Longrightarrow>
     app' \<in> set (analyzeStates env app) \<Longrightarrow> reachable app'"
| cancel: "reachable app \<Longrightarrow> appState app = loading \<Longrightarrow> reachable (handleCancel app)"
| analyzed: "reachable app \<Longrightarrow> appState app = uploading \<Longrightarrow>
     reachable (fst (handleAnalyze env app))"
| toggled: "reachable app \<Longrightarrow> appState app = reviewing \<Longrightarrow>
     reachable (toggleFileInclusion project fileName app)"
| reset: "reachable app \<Longrightarrow> appState app = reviewing \<Longrightarrow> reachable (handleReset app)"

section \<open>Concrete inputs\<close>

definition reviewedApp :: App where
  "reviewedApp =
     \<lparr> mainProjectFiles =
         [(newProjectFile ''a.js'')\<lparr>content := ''f()'', documentedContent := Some ''// f'',
                                   isIncluded := False\<rparr>,
          (newProjectFile ''notes'')\<lparr>documentedContent := Some []\<rparr>],
       frontendProjectFiles = [(newProjectFile ''a.js'')\<lparr>error := Some ''failed''\<rparr>],
       appState = reviewing, docLanguage = ru, processingMessage = [],
       isCancelledRef = False \<rparr>"

definition silentEnv :: Env where
  "silentEnv = \<lparr> JSON_parse = jsonParse,
                 generateContent = (\<lambda>i request. Resolved (contents request)),
                 cancelPressed = (\<lambda>i. False) \<rparr>"









definition orderApp :: App where
  "orderApp =
     contentLoaded frontend 0 ''let d''
       (contentLoaded main 2 ''c()''
          (contentLoaded main 0 ''a = 1''
             (handleFilesUpload frontend [''d.ts'']
                (handleFilesUpload main [''a.py'', ''b.readme'', ''c.js''] initialApp))))"

definition fiveApp :: App where
  "fiveApp =
     contentLoaded frontend 1 ''e()''
       (contentLoaded frontend 0 ''d()''
          (contentLoaded main 2 ''c()''
             (contentLoaded main 1 ''b()''
                (contentLoaded main 0 ''a()''
                   (handleFilesUpload frontend [''d.js'', ''e.js'']
                      (handleFilesUpload main [''a.js'', ''b.js'', ''c.js''] initialApp))))))"

definition cancelSecondEnv :: Env where
  "cancelSecondEnv = \<lparr> JSON_parse = jsonParse,
                       generateContent = (\<lambda>i request. Resolved (''// doc'' @ contents request)),
                       cancelPressed = (\<lambda>i. i = 1) \<rparr>"

definition failSecondEnv :: Env where
  "failSecondEnv = \<lparr> JSON_parse = jsonParse,
                     generateContent = (\<lambda>i request. if i = 1 then Rejected (Error ''network down'')
                                                     else Resolved (''// doc'' @ contents request)),
                     cancelPressed = (\<lambda>i. False) \<rparr>"

section \<open>Facts about the string methods\<close>

lemma dropWhile_white_Nil: "(dropWhile isWhiteSpace s = []) = (\<forall>c\<in>set s. isWhiteSpace c)"
  by simp

lemma trim_Nil_iff: "(trim s = []) = (\<forall>c\<in>set s. isWhiteSpace c)"
proof
  assume "trim s = []"
  then have all: "\<forall>c\<in>set (dropWhile isWhiteSpace s). isWhiteSpace c"
    by (simp add: trim_def)
  have "dropWhile isWhiteSpace s = []"
  proof (cases "dropWhile isWhiteSpace s")
    case Nil
    then show ?thesis .
  next
    case (Cons c cs)
    then have "\<not> isWhiteSpace c"
      using hd_dropWhile [of isWhiteSpace s] by simp
    with all Cons show ?thesis by simp
  qed
  then show "\<forall>c\<in>set s. isWhiteSpace c"
    by (simp add: dropWhile_white_Nil)
next
  assume "\<forall>c\<in>set s. isWhiteSpace c"
  then have "dropWhile isWhiteSpace s = []"
    by (simp add: dropWhile_white_Nil)
  then show "trim s = []"
    by (simp only: trim_def rev.simps dropWhile.simps)
qed

section \<open>toggleFileInclusion\<close>

lemma toggle_map_twice:
  "map (\<lambda>f. if name f = n then f\<lparr>isIncluded := \<not> isIncluded f\<rparr> else f)
     (map (\<lambda>f. if name f = n then f\<lparr>isIncluded := \<not> isIncluded f\<rparr> else f) fs) = fs"
  by (induction fs) auto

text \<open>
  Claim C9.  Toggling the same file name of the same grouping twice gives back the
  application state, hence the file list, as it was.  One toggle keeps the length of
  the list, replaces each record of that name by the same record with \<open>isIncluded\<close>
  negated, keeps every other record of the grouping, and keeps the other grouping.
\<close>

theorem toggleFileInclusion_involution:
  "toggleFileInclusion p n (toggleFileInclusion p n app) = app
   \<and> length (projectFilesOf p (toggleFileInclusion p n app)) = length (projectFilesOf p app)
   \<and> (\<forall>i. i < length (projectFilesOf p app) \<and> name (projectFilesOf p app ! i) = n \<longrightarrow>
          projectFilesOf p (toggleFileInclusion p n app) ! i
            = (projectFilesOf p app ! i)\<lparr>isIncluded := \<not> isIncluded (projectFilesOf p app ! i)\<rparr>)
   \<and> (\<forall>i. i < length (projectFilesOf p app) \<and> name (projectFilesOf p app ! i) \<noteq> n \<longrightarrow>
          projectFilesOf p (toggleFileInclusion p n app) ! i = projectFilesOf p app ! i)
   \<and> (\<forall>q. q \<noteq> p \<longrightarrow> projectFilesOf q (toggleFileInclusion p n app) = projectFilesOf q app)"
proof -
  have twice: "toggleFileInclusion p n (toggleFileInclusion p n app) = app"
    by (cases p) (simp_all add: toggleFileInclusion_def projectFilesOf_def setProjectFiles_def
        toggle_map_twice Let_def del: map_map)
  have files: "projectFilesOf p (toggleFileInclusion p n app)
      = map (\<lambda>f. if name f = n then f\<lparr>isIncluded := \<not> isIncluded f\<rparr> else f) (projectFilesOf p app)"
    by (cases p) (simp_all add: toggleFileInclusion_def projectFilesOf_def setProjectFiles_def Let_def)
  have other: "\<forall>q. q \<noteq> p \<longrightarrow> projectFilesOf q (toggleFileInclusion p n app) = projectFilesOf q app"
  proof (intro allI impI)
    fix q :: Project
    assume "q \<noteq> p"
    then show "projectFilesOf q (toggleFileInclusion p n app) = projectFilesOf q app"
      by (cases p; cases q)
        (simp_all add: toggleFileInclusion_def projectFilesOf_def setProjectFiles_def Let_def)
  qed
  from twice other show ?thesis
    by (simp add: files)
qed

theorem toggleFileInclusion_involution_witness:
  "toggleFileInclusion main ''a.js'' (toggleFileInclusion main ''a.js'' reviewedApp) = reviewedApp
   \<and> isIncluded (mainProjectFiles (toggleFileInclusion main ''a.js'' reviewedApp) ! 0)
   \<and> mainProjectFiles (toggleFileInclusion main ''a.js'' reviewedApp) ! 1
        = mainProjectFiles reviewedApp ! 1
   \<and> frontendProjectFiles (toggleFileInclusion main ''a.js'' reviewedApp)
        = frontendProjectFiles reviewedApp"
proof -
  have len: "(0::nat) < length (projectFilesOf main reviewedApp) \<and> name (projectFilesOf main reviewedApp ! 0) = ''a.js''"
    by (simp add: projectFilesOf_def reviewedApp_def newProjectFile_def)
  have len1: "(1::nat) < length (projectFilesOf main reviewedApp) \<and> name (projectFilesOf main reviewedApp ! 1) \<noteq> ''a.js''"
    by (simp add: projectFilesOf_def reviewedApp_def newProjectFile_def)
  have neq: "frontend \<noteq> main" by simp
  note t = toggleFileInclusion_involution [of main "''a.js''" reviewedApp]
  from t have a: "toggleFileInclusion main ''a.js'' (toggleFileInclusion main ''a.js'' reviewedApp) = reviewedApp"
    by blast
  from t len have b: "projectFilesOf main (toggleFileInclusion main ''a.js'' reviewedApp) ! 0
      = (projectFilesOf main reviewedApp ! 0)\<lparr>isIncluded := \<not> isIncluded (projectFilesOf main reviewedApp ! 0)\<rparr>"
    by blast
  from t len1 have c: "projectFilesOf main (toggleFileInclusion main ''a.js'' reviewedApp) ! 1
      = projectFilesOf main reviewedApp ! 1"
    by blast
  from t neq have d: "projectFilesOf frontend (toggleFileInclusion main ''a.js'' reviewedApp)
      = projectFilesOf frontend reviewedApp"
    by blast
  have e: "\<not> isIncluded (projectFilesOf main reviewedApp ! 0)"
    by (simp add: projectFilesOf_def reviewedApp_def newProjectFile_def)
  from a b c d e show ?thesis
    by (simp add: projectFilesOf_def)
qed

section \<open>handleAnalyze without files\<close>

text \<open>
  Claim C10.  When both groupings are empty, \<open>handleAnalyze\<close> builds no project context,
  calls \<open>setProcessingMessage\<close> not once, sends no request, and leaves the application
  in state \<open>uploading\<close> with its (empty) groupings, language and message as they were.
\<close>

theorem handleAnalyze_without_files:
  assumes "mainProjectFiles app = []" and "frontendProjectFiles app = []"
  shows "appState (fst (handleAnalyze env app)) = uploading
         \<and> fst (handleAnalyze env app) = app\<lparr>isCancelledRef := False, appState := uploading\<rparr>
         \<and> builtContext (snd (handleAnalyze env app)) = None
         \<and> progressLog (snd (handleAnalyze env app)) = []
         \<and> requestLog (snd (handleAnalyze env app)) = []"
  using assms by (simp add: handleAnalyze_def)

theorem handleAnalyze_without_files_witness:
  "appState (fst (handleAnalyze silentEnv initialApp)) = uploading
   \<and> mainProjectFiles (fst (handleAnalyze silentEnv initialApp)) = []
   \<and> frontendProjectFiles (fst (handleAnalyze silentEnv initialApp)) = []
   \<and> builtContext (snd (handleAnalyze silentEnv initialApp)) = None
   \<and> progressLog (snd (handleAnalyze silentEnv initialApp)) = []
   \<and> requestLog (snd (handleAnalyze silentEnv initialApp)) = []"
proof -
  have m: "mainProjectFiles initialApp = []" and f: "frontendProjectFiles initialApp = []"
    by (simp_all add: initialApp_def)
  from handleAnalyze_without_files [OF m f, of silentEnv] show ?thesis
    by (simp add: initialApp_def)
qed

section \<open>The short circuit\<close>

lemma generateDocumentation_short:
  "lang = ''code'' \<or> (\<forall>c\<in>set script. isWhiteSpace c) \<Longrightarrow>
     generateDocumentation parse ai script lang ctx docLang = (Inr script, [])"
  by (auto simp add: generateDocumentation_def trim_Nil_iff)

lemma iteration_short:
  assumes "language (files r ! i) = ''code'' \<or> (\<forall>c\<in>set (content (files r ! i)). isWhiteSpace c)"
  shows "files (iteration env ctx docLang n i r)
           = (files r)[i := (files r ! i)\<lparr>documentedContent := Some (content (files r ! i))\<rparr>]"
    and "requests (iteration env ctx docLang n i r) = requests r"
proof -
  show "files (iteration env ctx docLang n i r)
           = (files r)[i := (files r ! i)\<lparr>documentedContent := Some (content (files r ! i))\<rparr>]"
  proof (cases "language (files r ! i) = ''code''")
    case True
    then show ?thesis by (simp add: iteration_def Let_def)
  next
    case False
    with assms have "\<forall>c\<in>set (content (files r ! i)). isWhiteSpace c" by simp
    then have "awaited env ctx docLang i (files r ! i) = (Inr (content (files r ! i)), [])"
      by (simp add: awaited_def generateDocumentation_short)
    with False show ?thesis by (simp add: iteration_def Let_def)
  qed
  show "requests (iteration env ctx docLang n i r) = requests r"
  proof (cases "language (files r ! i) = ''code''")
    case True
    then show ?thesis by (simp add: iteration_def Let_def)
  next
    case False
    with assms have "\<forall>c\<in>set (content (files r ! i)). isWhiteSpace c" by simp
    then have "awaited env ctx docLang i (files r ! i) = (Inr (content (files r ! i)), [])"
      by (simp add: awaited_def generateDocumentation_short)
    with False show ?thesis by (simp add: iteration_def Let_def)
  qed
qed

text \<open>
  Claim C5.  When the language label is \<open>code\<close>, or every character of the content is
  white space (the empty content included, and the no-break space counted as white
  space), \<open>generateDocumentation\<close> returns the content as it is and sends no request;
  and the loop body stores the content of such a file as its \<open>documentedContent\<close>,
  changes no other record, and sends no request.
\<close>

theorem sentinel_or_blank_makes_no_call:
  "(lang = ''code'' \<or> (\<forall>c\<in>set script. isWhiteSpace c) \<longrightarrow>
      generateDocumentation parse ai script lang ctx docLang = (Inr script, []))
   \<and> (language (files r ! i) = ''code'' \<or> (\<forall>c\<in>set (content (files r ! i)). isWhiteSpace c) \<longrightarrow>
        files (iteration env ctx docLang n i r)
          = (files r)[i := (files r ! i)\<lparr>documentedContent := Some (content (files r ! i))\<rparr>]
        \<and> requests (iteration env ctx docLang n i r) = requests r)"
  using generateDocumentation_short [of lang script parse ai ctx docLang]
    iteration_short [of r i env ctx docLang n]
  by blast

theorem sentinel_or_blank_makes_no_call_witness:
  "generateDocumentation jsonParse (\<lambda>request. Rejected NonError) [CHR 0x20, CHR 0xA0, CHR 0x0A] ''Python'' ''ctx'' en
      = (Inr [CHR 0x20, CHR 0xA0, CHR 0x0A], [])
   \<and> files (iteration silentEnv ''ctx'' en 1 0 (startRun (handleFilesUpload main [''notes''] initialApp)))
      = [(newProjectFile ''notes'')\<lparr>documentedContent := Some []\<rparr>]
   \<and> requests (iteration silentEnv ''ctx'' en 1 0 (startRun (handleFilesUpload main [''notes''] initialApp)))
      = []"
proof -
  have blank: "''Python'' = ''code'' \<or> (\<forall>c\<in>set [CHR 0x20, CHR 0xA0, CHR 0x0A]. isWhiteSpace c)"
    by (simp add: isWhiteSpace_def)
  have fs: "files (startRun (handleFilesUpload main [''notes''] initialApp)) = [newProjectFile ''notes'']"
    by (simp add: startRun_def handleFilesUpload_def setProjectFiles_def initialApp_def)
  have lang: "language (newProjectFile ''notes'') = ''code''"
    by (simp add: newProjectFile_def getFileLanguage_def pop_def toLowerCase_def lowerChar_def
        isUpperAscii_def isUpperLatin_def)
  have code: "language (files (startRun (handleFilesUpload main [''notes''] initialApp)) ! 0) = ''code''
      \<or> (\<forall>c\<in>set (content (files (startRun (handleFilesUpload main [''notes''] initialApp)) ! 0)). isWhiteSpace c)"
    by (simp add: fs lang)
  have rq: "requests (startRun (handleFilesUpload main [''notes''] initialApp)) = []"
    by (simp add: startRun_def)
  have ct: "content (newProjectFile ''notes'') = []"
    by (simp add: newProjectFile_def)
  note t = sentinel_or_blank_makes_no_call [of "''Python''" "[CHR 0x20, CHR 0xA0, CHR 0x0A]" jsonParse
      "\<lambda>request. Rejected NonError" "''ctx''" en
      "startRun (handleFilesUpload main [''notes''] initialApp)" 0 silentEnv 1]
  from t blank code show ?thesis
    by (simp add: fs rq ct)
qed

section \<open>getFileLanguage\<close>

lemma splitStr_not_Nil: "splitStr sep s \<noteq> []"
  by (induction s) (auto split: list.splits)

lemma splitStr_without_sep: "sep \<notin> set s \<Longrightarrow> splitStr sep s = [s]"
  by (induction s) auto

lemma last_splitStr_append: "last (splitStr sep (xs @ sep # ys)) = last (splitStr sep ys)"
proof (induction xs)
  case Nil
  then show ?case by (simp add: splitStr_not_Nil)
next
  case (Cons c xs)
  show ?case
  proof (cases "c = sep")
    case True
    with Cons show ?thesis by (simp add: splitStr_not_Nil)
  next
    case False
    obtain w ws where sp: "splitStr sep (xs @ sep # ys) = w # ws"
      using splitStr_not_Nil [of sep "xs @ sep # ys"] by (cases "splitStr sep (xs @ sep # ys)") auto
    have "ws \<noteq> []"
    proof
      assume "ws = []"
      with sp have one: "splitStr sep (xs @ sep # ys) = [w]" by simp
      have "\<And>s. length (splitStr sep s) = Suc (length (filter (\<lambda>c. c = sep) s))"
      proof -
        fix s show "length (splitStr sep s) = Suc (length (filter (\<lambda>c. c = sep) s))"
          by (induction s) (auto split: list.splits simp add: splitStr_not_Nil)
      qed
      from this [of "xs @ sep # ys"] one show False by simp
    qed
    with sp False Cons show ?thesis by simp
  qed
qed

lemma pop_splitStr_extension:
  "CHR ''.'' \<notin> set ext \<Longrightarrow> pop (splitStr (CHR ''.'') (base @ ''.'' @ ext)) = Some ext"
  using last_splitStr_append [of "CHR ''.''" base ext]
  by (simp add: pop_def splitStr_not_Nil splitStr_without_sep)

text \<open>
  For a name with a dot, the label is that of the text after the last dot, compared
  without regard to case; any text not in the table gives \<open>code\<close>.
\<close>

lemma getFileLanguage_extension:
  assumes "CHR ''.'' \<notin> set ext"
  shows "getFileLanguage (base @ ''.'' @ ext) =
           (if toLowerCase ext = ''js'' then ''JavaScript''
            else if toLowerCase ext = ''ts'' then ''TypeScript''
            else if toLowerCase ext = ''py'' then ''Python''
            else if toLowerCase ext = ''java'' then ''Java''
            else if toLowerCase ext = ''go'' then ''Go''
            else if toLowerCase ext = ''gs'' then ''Google Apps Script''
            else ''code'')"
  unfolding getFileLanguage_def pop_splitStr_extension [OF assms]
  by (simp add: Let_def)

text \<open>
  Claim C6.  A name without a dot is not always labelled \<open>code\<close>: the whole name is
  taken for the extension, so the file named \<open>go\<close> is labelled \<open>Go\<close>.
\<close>

theorem getFileLanguage_name_without_dot:
  "CHR ''.'' \<notin> set ''go'' \<and> getFileLanguage ''go'' = ''Go''"
  by (simp add: getFileLanguage_def pop_def toLowerCase_def lowerChar_def isUpperAscii_def
      isUpperLatin_def)

section \<open>The fence pattern\<close>




















section \<open>The failure mapping\<close>











section \<open>The loop\<close>

lemma iteration_processed:
  "files (iteration env ctx docLang n i r) = (files r)[i := processed env ctx docLang i (files r ! i)]"
  by (simp add: iteration_def processed_def Let_def split: prod.splits sum.splits)

lemma iteration_cancelled:
  "cancelled (iteration env ctx docLang n i r) = (cancelled r \<or> cancelledDuring env (files r) i)"
  by (simp add: iteration_def cancelledDuring_def Let_def split: prod.splits sum.splits)

lemma iteration_messages:
  "messages (iteration env ctx docLang n i r) = messages r @ [progressMessage i n (files r ! i)]"
  by (simp add: iteration_def Let_def split: prod.splits sum.splits)

lemma iteration_requests:
  "requests (iteration env ctx docLang n i r) = requests r @ requestsFor env ctx docLang i (files r ! i)"
  by (simp add: iteration_def requestsFor_def Let_def split: prod.splits sum.splits)

lemma Run_eqI:
  fixes r s :: Run
  shows "files r = files s \<Longrightarrow> cancelled r = cancelled s \<Longrightarrow> messages r = messages s \<Longrightarrow>
    requests r = requests s \<Longrightarrow> r = s"
  by simp

lemma stateAfter_nth: "k < length fs \<Longrightarrow> files (stateAfter env ctx docLang fs k) ! k = fs ! k"
  by (simp add: stateAfter_def nth_append)

lemma iteration_stateAfter:
  assumes "k < length fs"
  shows "iteration env ctx docLang (length fs) k (stateAfter env ctx docLang fs k)
           = stateAfter env ctx docLang fs (Suc k)"
proof (rule Run_eqI)
  let ?s = "stateAfter env ctx docLang fs k"
  have d: "drop k fs = fs ! k # drop (Suc k) fs"
    using assms by (simp add: Cons_nth_drop_Suc)
  show "files (iteration env ctx docLang (length fs) k ?s) = files (stateAfter env ctx docLang fs (Suc k))"
    unfolding iteration_processed stateAfter_nth [OF assms]
    by (simp add: stateAfter_def d list_update_append)
  show "cancelled (iteration env ctx docLang (length fs) k ?s) = cancelled (stateAfter env ctx docLang fs (Suc k))"
    unfolding iteration_cancelled cancelledDuring_def stateAfter_nth [OF assms]
    by (auto simp add: stateAfter_def cancelledDuring_def less_Suc_eq)
  show "messages (iteration env ctx docLang (length fs) k ?s) = messages (stateAfter env ctx docLang fs (Suc k))"
    unfolding iteration_messages stateAfter_nth [OF assms]
    by (simp add: stateAfter_def)
  show "requests (iteration env ctx docLang (length fs) k ?s) = requests (stateAfter env ctx docLang fs (Suc k))"
    unfolding iteration_requests stateAfter_nth [OF assms]
    by (simp add: stateAfter_def)
qed


lemma find_upt_Cons:
  "i < n \<Longrightarrow> find P [i..<n] = (if P i then Some i else find P [Suc i..<n])"
  by (simp add: upt_conv_Cons)

lemma loop_stateAfter:
  assumes "i \<le> length fs" and "\<forall>l<i. \<not> cancelledDuring env fs l"
  shows "loop env ctx docLang (length fs) i (stateAfter env ctx docLang fs i)
           = stateAfter env ctx docLang fs
               (case find (cancelledDuring env fs) [i..<length fs] of
                  None \<Rightarrow> length fs
                | Some l \<Rightarrow> Suc l)"
  using assms
proof (induction "length fs - i" arbitrary: i)
  case 0
  then have "i = length fs" by simp
  then show ?case by (simp add: loop.simps)
next
  case (Suc d)
  then have lt: "i < length fs" by simp
  have nc: "\<not> cancelled (stateAfter env ctx docLang fs i)"
    using Suc.prems(2) by (simp add: stateAfter_def)
  have step: "loop env ctx docLang (length fs) i (stateAfter env ctx docLang fs i)
      = loop env ctx docLang (length fs) (Suc i) (stateAfter env ctx docLang fs (Suc i))"
    using lt nc by (subst loop.simps) (simp add: iteration_stateAfter)
  show ?case
  proof (cases "cancelledDuring env fs i")
    case True
    then have "cancelled (stateAfter env ctx docLang fs (Suc i))"
      by (auto simp add: stateAfter_def)
    then have "loop env ctx docLang (length fs) (Suc i) (stateAfter env ctx docLang fs (Suc i))
        = stateAfter env ctx docLang fs (Suc i)"
      by (subst loop.simps) simp
    with step True lt show ?thesis
      by (simp add: find_upt_Cons)
  next
    case False
    with Suc.prems(2) have "\<forall>l<Suc i. \<not> cancelledDuring env fs l"
      by (simp add: less_Suc_eq)
    moreover from Suc.hyps(2) lt have "d = length fs - Suc i" by simp
    moreover from lt have "Suc i \<le> length fs" by simp
    ultimately have "loop env ctx docLang (length fs) (Suc i) (stateAfter env ctx docLang fs (Suc i))
        = stateAfter env ctx docLang fs
               (case find (cancelledDuring env fs) [Suc i..<length fs] of
                  None \<Rightarrow> length fs
                | Some l \<Rightarrow> Suc l)"
      using Suc.hyps(1) by blast
    with step False lt show ?thesis
      by (simp add: find_upt_Cons)
  qed
qed

lemma loopStates_stateAfter:
  assumes "i \<le> length fs" and "\<forall>l<i. \<not> cancelledDuring env fs l"
  shows "loopStates env ctx docLang (length fs) i (stateAfter env ctx docLang fs i)
           = map (stateAfter env ctx docLang fs)
               [i..<Suc (case find (cancelledDuring env fs) [i..<length fs] of
                  None \<Rightarrow> length fs
                | Some l \<Rightarrow> Suc l)]"
  using assms
proof (induction "length fs - i" arbitrary: i)
  case 0
  then have "i = length fs" by simp
  then show ?case by (simp add: loopStates.simps)
next
  case (Suc d)
  then have lt: "i < length fs" by simp
  have nc: "\<not> cancelled (stateAfter env ctx docLang fs i)"
    using Suc.prems(2) by (simp add: stateAfter_def)
  have step: "loopStates env ctx docLang (length fs) i (stateAfter env ctx docLang fs i)
      = stateAfter env ctx docLang fs i
        # loopStates env ctx docLang (length fs) (Suc i) (stateAfter env ctx docLang fs (Suc i))"
    using lt nc by (subst loopStates.simps) (simp add: iteration_stateAfter)
  show ?case
  proof (cases "cancelledDuring env fs i")
    case True
    then have "cancelled (stateAfter env ctx docLang fs (Suc i))"
      by (auto simp add: stateAfter_def)
    then have "loopStates env ctx docLang (length fs) (Suc i) (stateAfter env ctx docLang fs (Suc i))
        = [stateAfter env ctx docLang fs (Suc i)]"
      by (subst loopStates.simps) simp
    with step True lt show ?thesis
      by (simp add: find_upt_Cons upt_conv_Cons)
  next
    case False
    with Suc.prems(2) have "\<forall>l<Suc i. \<not> cancelledDuring env fs l"
      by (simp add: less_Suc_eq)
    moreover from Suc.hyps(2) lt have "d = length fs - Suc i" by simp
    moreover from lt have "Suc i \<le> length fs" by simp
    ultimately have "loopStates env ctx docLang (length fs) (Suc i) (stateAfter env ctx docLang fs (Suc i))
        = map (stateAfter env ctx docLang fs)
               [Suc i..<Suc (case find (cancelledDuring env fs) [Suc i..<length fs] of
                  None \<Rightarrow> length fs
                | Some l \<Rightarrow> Suc l)]"
      using Suc.hyps(1) by blast
    moreover have "Suc i \<le> (case find (cancelledDuring env fs) [Suc i..<length fs] of
                  None \<Rightarrow> length fs
                | Some l \<Rightarrow> Suc l)"
    proof (cases "find (cancelledDuring env fs) [Suc i..<length fs]")
      case None
      with lt show ?thesis by simp
    next
      case (Some l)
      then have "l \<in> set [Suc i..<length fs]"
        by (auto simp add: find_Some_iff)
      with Some show ?thesis by simp
    qed
    then have "[i..<Suc (case find (cancelledDuring env fs) [Suc i..<length fs] of
                  None \<Rightarrow> length fs
                | Some l \<Rightarrow> Suc l)]
        = i # [Suc i..<Suc (case find (cancelledDuring env fs) [Suc i..<length fs] of
                  None \<Rightarrow> length fs
                | Some l \<Rightarrow> Suc l)]"
      by (intro upt_conv_Cons) simp
    moreover have "find (cancelledDuring env fs) [i..<length fs]
        = find (cancelledDuring env fs) [Suc i..<length fs]"
      using False lt by (simp add: find_upt_Cons)
    ultimately show ?thesis
      using step by (simp only: list.map)
  qed
qed

lemma startRun_stateAfter:
  "startRun app = stateAfter env ctx docLang (allFilesOf app) 0"
  by (simp add: startRun_def stateAfter_def allFilesOf_def)

lemma loop_run:
  "loop env ctx docLang (length fs) 0 (stateAfter env ctx docLang fs 0)
     = stateAfter env ctx docLang fs (processedCount env fs)"
  using loop_stateAfter [of 0 fs env ctx docLang]
  by (simp add: processedCount_def)

lemma loopStates_run:
  "loopStates env ctx docLang (length fs) 0 (stateAfter env ctx docLang fs 0)
     = map (stateAfter env ctx docLang fs) [0..<Suc (processedCount env fs)]"
  using loopStates_stateAfter [of 0 fs env ctx docLang]
  by (simp only: processedCount_def) simp

lemma processedCount_le: "processedCount env fs \<le> length fs"
proof (cases "find (cancelledDuring env fs) [0..<length fs]")
  case None
  then show ?thesis by (simp add: processedCount_def)
next
  case (Some l)
  then have "l \<in> set [0..<length fs]" by (auto simp add: find_Some_iff)
  with Some show ?thesis by (simp add: processedCount_def)
qed

lemma processedCount_first:
  assumes "i < length fs" and "cancelledDuring env fs i" and "\<forall>l<i. \<not> cancelledDuring env fs l"
  shows "processedCount env fs = Suc i"
proof -
  have "find (cancelledDuring env fs) [0..<length fs] = Some i"
    unfolding find_Some_iff
  proof (intro exI [of _ i] conjI)
    show "i < length [0..<length fs]" using assms(1) by simp
    show "cancelledDuring env fs ([0..<length fs] ! i)" using assms(1,2) by simp
    show "i = [0..<length fs] ! i" using assms(1) by simp
    show "\<forall>j<i. \<not> cancelledDuring env fs ([0..<length fs] ! j)"
      using assms(1,3) by simp
  qed
  then show ?thesis by (simp add: processedCount_def)
qed

lemma processedCount_cases:
  "(processedCount env fs = length fs \<and> (\<forall>l. Suc l < length fs \<longrightarrow> \<not> cancelledDuring env fs l))
   \<or> (\<exists>i<length fs. processedCount env fs = Suc i \<and> cancelledDuring env fs i
         \<and> (\<forall>l<i. \<not> cancelledDuring env fs l))"
proof (cases "find (cancelledDuring env fs) [0..<length fs]")
  case None
  then have "\<forall>l<length fs. \<not> cancelledDuring env fs l"
    by (simp add: find_None_iff)
  with None show ?thesis by (simp add: processedCount_def)
next
  case (Some i)
  then have "i < length fs \<and> cancelledDuring env fs i \<and> (\<forall>l<i. \<not> cancelledDuring env fs l)"
    by (auto simp add: find_Some_iff)
  with Some show ?thesis by (auto simp add: processedCount_def)
qed

lemma processedCount_all:
  "\<forall>l<length fs. \<not> cancelledDuring env fs l \<Longrightarrow> processedCount env fs = length fs"
  by (simp add: processedCount_def find_None_iff [THEN iffD2])

lemma processedCount_next:
  assumes "i < processedCount env fs" and "Suc i < length fs" and "\<not> cancelledDuring env fs i"
  shows "Suc i < processedCount env fs"
  using processedCount_cases [of env fs] assms
  by (auto simp add: less_Suc_eq)

lemma cancelled_when_stopped_early:
  assumes "processedCount env fs < length fs"
  shows "cancelled (stateAfter env ctx docLang fs (processedCount env fs))"
proof -
  from processedCount_cases [of env fs] assms
  obtain i where "processedCount env fs = Suc i" and "cancelledDuring env fs i"
    by auto
  then show ?thesis
    by (auto simp add: stateAfter_def)
qed

lemma files_stateAfter_length:
  "k \<le> length fs \<Longrightarrow> length (files (stateAfter env ctx docLang fs k)) = length fs"
  by (simp add: stateAfter_def)

lemma files_stateAfter_before:
  "j < k \<Longrightarrow> k \<le> length fs \<Longrightarrow>
     files (stateAfter env ctx docLang fs k) ! j = processed env ctx docLang j (fs ! j)"
  by (simp add: stateAfter_def nth_append)

lemma files_stateAfter_from:
  "k \<le> j \<Longrightarrow> j < length fs \<Longrightarrow> files (stateAfter env ctx docLang fs k) ! j = fs ! j"
  by (simp add: stateAfter_def nth_append)

lemma handleAnalyze_run:
  assumes "allFilesOf app \<noteq> []"
  shows "handleAnalyze env app =
     ((duringRun app (stateAfter env (buildContext (allFilesOf app)) (docLanguage app)
          (allFilesOf app) (processedCount env (allFilesOf app))))
        \<lparr>processingMessage := [], appState := reviewing\<rparr>,
      \<lparr> builtContext = Some (buildContext (allFilesOf app)),
        progressLog = messages (stateAfter env (buildContext (allFilesOf app)) (docLanguage app)
          (allFilesOf app) (processedCount env (allFilesOf app))) @ [[]],
        requestLog = requests (stateAfter env (buildContext (allFilesOf app)) (docLanguage app)
          (allFilesOf app) (processedCount env (allFilesOf app))) \<rparr>)"
proof -
  have "loop env (buildContext (allFilesOf app)) (docLanguage app) (length (allFilesOf app)) 0
          (startRun app)
      = stateAfter env (buildContext (allFilesOf app)) (docLanguage app)
          (allFilesOf app) (processedCount env (allFilesOf app))"
    unfolding startRun_stateAfter [of app env "buildContext (allFilesOf app)" "docLanguage app"]
    by (rule loop_run)
  with assms show ?thesis
    by (simp add: handleAnalyze_def Let_def flip: allFilesOf_def)
qed

lemma allFilesOf_duringRun:
  "allFilesOf (duringRun app r) = files r"
  by (simp add: allFilesOf_def duringRun_def)

lemma allFilesOf_handleAnalyze:
  assumes "allFilesOf app \<noteq> []"
  shows "allFilesOf (fst (handleAnalyze env app))
     = files (stateAfter env (buildContext (allFilesOf app)) (docLanguage app)
          (allFilesOf app) (processedCount env (allFilesOf app)))"
  by (simp add: handleAnalyze_run [OF assms] allFilesOf_def duringRun_def)


lemma isCancelledRef_handleAnalyze:
  assumes "allFilesOf app \<noteq> []"
  shows "isCancelledRef (fst (handleAnalyze env app))
     = cancelled (stateAfter env (buildContext (allFilesOf app)) (docLanguage app)
          (allFilesOf app) (processedCount env (allFilesOf app)))"
  by (simp add: handleAnalyze_run [OF assms] duringRun_def)

lemma appState_handleAnalyze:
  "allFilesOf app \<noteq> [] \<Longrightarrow> appState (fst (handleAnalyze env app)) = reviewing"
  by (simp add: handleAnalyze_run)

lemma progressLog_handleAnalyze:
  assumes "allFilesOf app \<noteq> []"
  shows "progressLog (snd (handleAnalyze env app))
     = map (\<lambda>j. progressMessage j (length (allFilesOf app)) (allFilesOf app ! j))
         [0..<processedCount env (allFilesOf app)] @ [[]]"
  by (simp add: handleAnalyze_run [OF assms] stateAfter_def)

lemma requestLog_handleAnalyze:
  assumes "allFilesOf app \<noteq> []"
  shows "requestLog (snd (handleAnalyze env app))
     = concat (map (\<lambda>j. requestsFor env (buildContext (allFilesOf app)) (docLanguage app) j
                          (allFilesOf app ! j))
         [0..<processedCount env (allFilesOf app)])"
  by (simp add: handleAnalyze_run [OF assms] stateAfter_def)

lemma generateDocumentation_throws_Error:
  "fst (generateDocumentation parse ai script lang ctx docLang) = Inl e \<Longrightarrow>
     lang \<noteq> ''code'' \<and> (\<exists>m. e = Error m)"
  by (auto simp add: generateDocumentation_def Let_def split: if_splits Outcome.splits)

lemma processed_failure:
  assumes "fst (awaited env ctx docLang i file) = Inl e"
  shows "\<exists>m. e = Error m \<and> processed env ctx docLang i file = file\<lparr>error := Some m\<rparr>"
proof -
  from assms have "language file \<noteq> ''code''" and "\<exists>m. e = Error m"
    using generateDocumentation_throws_Error
      [of "JSON_parse env" "generateContent env i" "content file" "language file" ctx docLang e]
    by (simp_all add: awaited_def)
  with assms show ?thesis
    by (auto simp add: processed_def caughtMessage_def)
qed

lemma processed_other_outcome:
  "j \<noteq> i \<Longrightarrow> processed (env\<lparr>generateContent := (generateContent env)(i := g)\<rparr>) ctx docLang j file
     = processed env ctx docLang j file"
  by (simp add: processed_def awaited_def)

lemma processedCount_other_outcome:
  "processedCount (env\<lparr>generateContent := g\<rparr>) fs = processedCount env fs"
proof -
  have "cancelledDuring (env\<lparr>generateContent := g\<rparr>) fs = cancelledDuring env fs"
    by (rule ext) (simp add: cancelledDuring_def)
  then show ?thesis by (simp add: processedCount_def)
qed

lemma final_file_processed:
  assumes "j < processedCount env (allFilesOf app)"
  shows "allFilesOf (fst (handleAnalyze env app)) ! j
     = processed env (buildContext (allFilesOf app)) (docLanguage app) j (allFilesOf app ! j)"
proof -
  from assms have ne: "allFilesOf app \<noteq> []"
    using processedCount_le [of env "allFilesOf app"] by auto
  show ?thesis
    unfolding allFilesOf_handleAnalyze [OF ne]
    using assms processedCount_le [of env "allFilesOf app"]
    by (simp add: files_stateAfter_before)
qed

lemma final_file_untouched:
  assumes "processedCount env (allFilesOf app) \<le> j" and "j < length (allFilesOf app)"
  shows "allFilesOf (fst (handleAnalyze env app)) ! j = allFilesOf app ! j"
proof -
  from assms have ne: "allFilesOf app \<noteq> []" by auto
  show ?thesis
    unfolding allFilesOf_handleAnalyze [OF ne]
    using assms by (simp add: files_stateAfter_from)
qed

lemma final_length:
  "length (allFilesOf (fst (handleAnalyze env app))) = length (allFilesOf app)"
proof (cases "allFilesOf app = []")
  case True
  then show ?thesis by (simp add: handleAnalyze_def allFilesOf_def)
next
  case False
  then show ?thesis
    by (simp add: allFilesOf_handleAnalyze files_stateAfter_length processedCount_le)
qed

text \<open>
  Claim C2.  Let the run reach the file at position \<open>i\<close> and let the call of
  \<open>generateDocumentation\<close> for it fail with \<open>e\<close>.  Then \<open>e\<close> is an error with a message
  \<open>m\<close>, and after the run the record at position \<open>i\<close> is the record of before with
  \<open>error\<close> set to \<open>m\<close> (so \<open>documentedContent\<close> is as before, null for a fresh file).
  The run ends in state \<open>reviewing\<close>.  Whatever the call for position \<open>i\<close> had given
  instead, every other record would be the same after the run.  Unless Cancel is
  pressed during the call, the run goes on to announce and process position \<open>i + 1\<close>
  when there is one; and it stops before the end of the list only with the
  cancellation flag set.
\<close>

theorem per_file_failure_is_contained:
  assumes "i < processedCount env (allFilesOf app)"
    and "fst (awaited env (buildContext (allFilesOf app)) (docLanguage app) i (allFilesOf app ! i)) = Inl e"
  shows "(\<exists>m. e = Error m
            \<and> allFilesOf (fst (handleAnalyze env app)) ! i = (allFilesOf app ! i)\<lparr>error := Some m\<rparr>)
         \<and> documentedContent (allFilesOf (fst (handleAnalyze env app)) ! i)
             = documentedContent (allFilesOf app ! i)
         \<and> appState (fst (handleAnalyze env app)) = reviewing
         \<and> (\<forall>g j. j \<noteq> i \<and> j < length (allFilesOf app) \<longrightarrow>
               allFilesOf (fst (handleAnalyze (env\<lparr>generateContent := (generateContent env)(i := g)\<rparr>) app)) ! j
                 = allFilesOf (fst (handleAnalyze env app)) ! j)
         \<and> (Suc i < length (allFilesOf app) \<and> \<not> cancelPressed env i \<longrightarrow>
               Suc i < processedCount env (allFilesOf app)
               \<and> progressLog (snd (handleAnalyze env app)) ! Suc i
                   = progressMessage (Suc i) (length (allFilesOf app)) (allFilesOf app ! Suc i)
               \<and> allFilesOf (fst (handleAnalyze env app)) ! Suc i
                   = processed env (buildContext (allFilesOf app)) (docLanguage app) (Suc i)
                       (allFilesOf app ! Suc i))
         \<and> (processedCount env (allFilesOf app) = length (allFilesOf app)
              \<or> isCancelledRef (fst (handleAnalyze env app)))"
proof -
  let ?fs = "allFilesOf app"
  let ?ctx = "buildContext ?fs"
  let ?dl = "docLanguage app"
  from assms(1) have ne: "?fs \<noteq> []"
    using processedCount_le [of env ?fs] by auto
  obtain m where m: "e = Error m"
    and p: "processed env ?ctx ?dl i (?fs ! i) = (?fs ! i)\<lparr>error := Some m\<rparr>"
    using processed_failure [OF assms(2)] by blast
  have one: "\<exists>m. e = Error m
            \<and> allFilesOf (fst (handleAnalyze env app)) ! i = (?fs ! i)\<lparr>error := Some m\<rparr>"
    using m p final_file_processed [OF assms(1)] by simp
  then have two: "documentedContent (allFilesOf (fst (handleAnalyze env app)) ! i)
             = documentedContent (?fs ! i)"
    by auto
  have three: "appState (fst (handleAnalyze env app)) = reviewing"
    using ne by (rule appState_handleAnalyze)
  have four: "\<forall>g j. j \<noteq> i \<and> j < length ?fs \<longrightarrow>
               allFilesOf (fst (handleAnalyze (env\<lparr>generateContent := (generateContent env)(i := g)\<rparr>) app)) ! j
                 = allFilesOf (fst (handleAnalyze env app)) ! j"
  proof (intro allI impI)
    fix g j
    assume j: "j \<noteq> i \<and> j < length ?fs"
    let ?env' = "env\<lparr>generateContent := (generateContent env)(i := g)\<rparr>"
    have k: "processedCount ?env' ?fs = processedCount env ?fs"
      by (rule processedCount_other_outcome)
    show "allFilesOf (fst (handleAnalyze ?env' app)) ! j = allFilesOf (fst (handleAnalyze env app)) ! j"
    proof (cases "j < processedCount env ?fs")
      case True
      then have "allFilesOf (fst (handleAnalyze ?env' app)) ! j = processed ?env' ?ctx ?dl j (?fs ! j)"
        using final_file_processed [of j ?env' app] k by simp
      with True j show ?thesis
        by (simp add: final_file_processed processed_other_outcome)
    next
      case False
      with j show ?thesis
        by (simp add: final_file_untouched k)
    qed
  qed
  have five: "Suc i < length ?fs \<and> \<not> cancelPressed env i \<longrightarrow>
               Suc i < processedCount env ?fs
               \<and> progressLog (snd (handleAnalyze env app)) ! Suc i
                   = progressMessage (Suc i) (length ?fs) (?fs ! Suc i)
               \<and> allFilesOf (fst (handleAnalyze env app)) ! Suc i
                   = processed env ?ctx ?dl (Suc i) (?fs ! Suc i)"
  proof
    assume a: "Suc i < length ?fs \<and> \<not> cancelPressed env i"
    then have "\<not> cancelledDuring env ?fs i"
      by (simp add: cancelledDuring_def)
    with a assms(1) have next_reached: "Suc i < processedCount env ?fs"
      by (simp add: processedCount_next)
    then have "(map (\<lambda>j. progressMessage j (length ?fs) (?fs ! j)) [0..<processedCount env ?fs] @ [[]]) ! Suc i
        = progressMessage (Suc i) (length ?fs) (?fs ! Suc i)"
      by (simp add: nth_append)
    with next_reached show "Suc i < processedCount env ?fs
               \<and> progressLog (snd (handleAnalyze env app)) ! Suc i
                   = progressMessage (Suc i) (length ?fs) (?fs ! Suc i)
               \<and> allFilesOf (fst (handleAnalyze env app)) ! Suc i
                   = processed env ?ctx ?dl (Suc i) (?fs ! Suc i)"
      by (simp add: progressLog_handleAnalyze [OF ne] final_file_processed)
  qed
  have six: "processedCount env ?fs = length ?fs \<or> isCancelledRef (fst (handleAnalyze env app))"
  proof (cases "processedCount env ?fs < length ?fs")
    case True
    then show ?thesis
      using cancelled_when_stopped_early [of env ?fs ?ctx ?dl]
      by (simp add: isCancelledRef_handleAnalyze [OF ne])
  next
    case False
    with processedCount_le [of env ?fs] show ?thesis by simp
  qed
  from one two three four five six show ?thesis by blast
qed


theorem per_file_failure_is_contained_witness:
  "map error (allFilesOf (fst (handleAnalyze failSecondEnv fiveApp)))
     = [None, Some ''An unexpected error occurred: network down'', None, None, None]
   \<and> documentedContent (allFilesOf (fst (handleAnalyze failSecondEnv fiveApp)) ! 1) = None
   \<and> appState (fst (handleAnalyze failSecondEnv fiveApp)) = reviewing
   \<and> allFilesOf (fst (handleAnalyze
         (failSecondEnv\<lparr>generateContent := (generateContent failSecondEnv)(1 := (\<lambda>request. Resolved ''ok''))\<rparr>)
         fiveApp)) ! 2
       = allFilesOf (fst (handleAnalyze failSecondEnv fiveApp)) ! 2
   \<and> progressLog (snd (handleAnalyze failSecondEnv fiveApp)) ! 2 = ''Analyzing 3/5: c.js''
   \<and> documentedContent (allFilesOf (fst (handleAnalyze failSecondEnv fiveApp)) ! 2) = Some ''// docc()''"
proof -
  let ?fs = "allFilesOf fiveApp"
  have reached: "1 < processedCount failSecondEnv ?fs"
    by code_simp
  have fails: "fst (awaited failSecondEnv (buildContext ?fs) (docLanguage fiveApp) 1 (?fs ! 1))
      = Inl (Error ''An unexpected error occurred: network down'')"
    by code_simp
  note t = per_file_failure_is_contained [OF reached fails]
  have others: "map error (allFilesOf (fst (handleAnalyze failSecondEnv fiveApp)))
     = [None, Some ''An unexpected error occurred: network down'', None, None, None]"
    by code_simp
  from t have doc: "documentedContent (allFilesOf (fst (handleAnalyze failSecondEnv fiveApp)) ! 1)
      = documentedContent (?fs ! 1)"
    by blast
  have fresh: "documentedContent (?fs ! 1) = None"
    by code_simp
  from t have st: "appState (fst (handleAnalyze failSecondEnv fiveApp)) = reviewing"
    by blast
  have len: "(2::nat) \<noteq> 1 \<and> 2 < length ?fs"
    by code_simp
  from t len have sib: "allFilesOf (fst (handleAnalyze
         (failSecondEnv\<lparr>generateContent := (generateContent failSecondEnv)(1 := (\<lambda>request. Resolved ''ok''))\<rparr>)
         fiveApp)) ! 2
       = allFilesOf (fst (handleAnalyze failSecondEnv fiveApp)) ! 2"
    by blast
  have nxt: "Suc 1 < length ?fs \<and> \<not> cancelPressed failSecondEnv 1"
    by code_simp
  from t nxt have "progressLog (snd (handleAnalyze failSecondEnv fiveApp)) ! Suc 1
      = progressMessage (Suc 1) (length ?fs) (?fs ! Suc 1)"
    and "allFilesOf (fst (handleAnalyze failSecondEnv fiveApp)) ! Suc 1
      = processed failSecondEnv (buildContext ?fs) (docLanguage fiveApp) (Suc 1) (?fs ! Suc 1)"
    by blast+
  moreover have "progressMessage (Suc 1) (length ?fs) (?fs ! Suc 1) = ''Analyzing 3/5: c.js''"
    by code_simp
  moreover have "documentedContent (processed failSecondEnv (buildContext ?fs) (docLanguage fiveApp) (Suc 1) (?fs ! Suc 1))
      = Some ''// docc()''"
    by code_simp
  ultimately have p: "progressLog (snd (handleAnalyze failSecondEnv fiveApp)) ! 2 = ''Analyzing 3/5: c.js''"
    and d: "documentedContent (allFilesOf (fst (handleAnalyze failSecondEnv fiveApp)) ! 2) = Some ''// docc()''"
    by (simp_all add: numeral_2_eq_2)
  from others doc fresh st sib p d show ?thesis by simp
qed

lemma processed_written:
  "documentedContent (processed env ctx docLang i file) \<noteq> None
   \<or> error (processed env ctx docLang i file) \<noteq> None"
  by (simp add: processed_def split: sum.splits)

text \<open>
  Claim C3.  Let Cancel be pressed, for the first time, while the run processes the
  file at position \<open>i\<close>.  Then that file is completed (its \<open>documentedContent\<close> or its
  \<open>error\<close> is written), as the files before it are; every file after it keeps the
  record it had, so both fields stay null where they were null; exactly \<open>i + 1\<close> files
  are announced; and the run ends in state \<open>reviewing\<close>, with nothing but the
  cancellation flag to tell it from a run that reached the end of the list.
\<close>

theorem cancellation_at_file_boundary:
  assumes "i < length (allFilesOf app)"
    and "cancelledDuring env (allFilesOf app) i"
    and "\<forall>l<i. \<not> cancelledDuring env (allFilesOf app) l"
  shows "(documentedContent (allFilesOf (fst (handleAnalyze env app)) ! i) \<noteq> None
            \<or> error (allFilesOf (fst (handleAnalyze env app)) ! i) \<noteq> None)
         \<and> (\<forall>j\<le>i. allFilesOf (fst (handleAnalyze env app)) ! j
               = processed env (buildContext (allFilesOf app)) (docLanguage app) j (allFilesOf app ! j))
         \<and> (\<forall>j. i < j \<and> j < length (allFilesOf app) \<longrightarrow>
               allFilesOf (fst (handleAnalyze env app)) ! j = allFilesOf app ! j)
         \<and> (\<forall>j. i < j \<and> j < length (allFilesOf app) \<and> isUnprocessed (allFilesOf app ! j) \<longrightarrow>
               documentedContent (allFilesOf (fst (handleAnalyze env app)) ! j) = None
               \<and> error (allFilesOf (fst (handleAnalyze env app)) ! j) = None)
         \<and> length (allFilesOf (fst (handleAnalyze env app))) = length (allFilesOf app)
         \<and> progressLog (snd (handleAnalyze env app))
             = map (\<lambda>j. progressMessage j (length (allFilesOf app)) (allFilesOf app ! j)) [0..<Suc i] @ [[]]
         \<and> appState (fst (handleAnalyze env app)) = reviewing
         \<and> isCancelledRef (fst (handleAnalyze env app))"
proof -
  let ?fs = "allFilesOf app"
  from assms(1) have ne: "?fs \<noteq> []" by auto
  have k: "processedCount env ?fs = Suc i"
    using assms by (rule processedCount_first)
  have before: "\<forall>j\<le>i. allFilesOf (fst (handleAnalyze env app)) ! j
               = processed env (buildContext ?fs) (docLanguage app) j (?fs ! j)"
    by (simp add: final_file_processed k)
  then have written: "documentedContent (allFilesOf (fst (handleAnalyze env app)) ! i) \<noteq> None
            \<or> error (allFilesOf (fst (handleAnalyze env app)) ! i) \<noteq> None"
    using processed_written [of env "buildContext ?fs" "docLanguage app" i "?fs ! i"] by simp
  have after: "\<forall>j. i < j \<and> j < length ?fs \<longrightarrow>
               allFilesOf (fst (handleAnalyze env app)) ! j = ?fs ! j"
    by (simp add: final_file_untouched k)
  have log: "progressLog (snd (handleAnalyze env app))
             = map (\<lambda>j. progressMessage j (length ?fs) (?fs ! j)) [0..<Suc i] @ [[]]"
    unfolding progressLog_handleAnalyze [OF ne] k ..
  have flag: "isCancelledRef (fst (handleAnalyze env app))"
    unfolding isCancelledRef_handleAnalyze [OF ne] k
    using assms(2) by (auto simp add: stateAfter_def)
  from after have nulls: "\<forall>j. i < j \<and> j < length ?fs \<and> isUnprocessed (?fs ! j) \<longrightarrow>
               documentedContent (allFilesOf (fst (handleAnalyze env app)) ! j) = None
               \<and> error (allFilesOf (fst (handleAnalyze env app)) ! j) = None"
    by (simp add: isUnprocessed_def)
  from written before after nulls final_length [of env app] log
    appState_handleAnalyze [OF ne, of env] flag
  show ?thesis by blast
qed

theorem cancellation_at_file_boundary_witness:
  "map (\<lambda>f. (documentedContent f, error f)) (allFilesOf (fst (handleAnalyze cancelSecondEnv fiveApp)))
     = [(Some ''// doca()'', None), (Some ''// docb()'', None), (None, None), (None, None), (None, None)]
   \<and> allFilesOf (fst (handleAnalyze cancelSecondEnv fiveApp)) ! 3 = allFilesOf fiveApp ! 3
   \<and> progressLog (snd (handleAnalyze cancelSecondEnv fiveApp))
       = [''Analyzing 1/5: a.js'', ''Analyzing 2/5: b.js'', []]
   \<and> appState (fst (handleAnalyze cancelSecondEnv fiveApp)) = reviewing
   \<and> isCancelledRef (fst (handleAnalyze cancelSecondEnv fiveApp))"
proof -
  let ?fs = "allFilesOf fiveApp"
  have i: "1 < length ?fs"
    by code_simp
  have c: "cancelledDuring cancelSecondEnv ?fs 1"
    by code_simp
  have f: "\<forall>l<1. \<not> cancelledDuring cancelSecondEnv ?fs l"
    by (simp add: cancelledDuring_def cancelSecondEnv_def)
  note t = cancellation_at_file_boundary [OF i c f]
  have all: "map (\<lambda>f. (documentedContent f, error f)) (allFilesOf (fst (handleAnalyze cancelSecondEnv fiveApp)))
     = [(Some ''// doca()'', None), (Some ''// docb()'', None), (None, None), (None, None), (None, None)]"
    by code_simp
  have j: "(1::nat) < 3 \<and> 3 < length ?fs"
    by code_simp
  from t j have kept: "allFilesOf (fst (handleAnalyze cancelSecondEnv fiveApp)) ! 3 = ?fs ! 3"
    by blast
  have "map (\<lambda>j. progressMessage j (length ?fs) (?fs ! j)) [0..<Suc 1]
      = [''Analyzing 1/5: a.js'', ''Analyzing 2/5: b.js'']"
    by code_simp
  with t have log: "progressLog (snd (handleAnalyze cancelSecondEnv fiveApp))
       = [''Analyzing 1/5: a.js'', ''Analyzing 2/5: b.js'', []]"
    by simp
  from t have st: "appState (fst (handleAnalyze cancelSecondEnv fiveApp)) = reviewing"
    and fl: "isCancelledRef (fst (handleAnalyze cancelSecondEnv fiveApp))"
    by blast+
  from all kept log st fl show ?thesis by blast
qed

section \<open>The states of a file\<close>

lemma processed_of_unprocessed:
  "isUnprocessed f \<Longrightarrow>
     isDocumented (processed env ctx docLang i f) \<or> isFailed (processed env ctx docLang i f)"
  by (simp add: processed_def isUnprocessed_def isDocumented_def isFailed_def split: sum.splits)

lemma stateAfter_file_states:
  assumes "\<forall>f\<in>set fs. isUnprocessed f" and "k \<le> length fs" and "j < length fs"
  shows "(j < k \<longrightarrow> isDocumented (files (stateAfter env ctx docLang fs k) ! j)
                    \<or> isFailed (files (stateAfter env ctx docLang fs k) ! j))
         \<and> (k \<le> j \<longrightarrow> isUnprocessed (files (stateAfter env ctx docLang fs k) ! j))"
proof (cases "j < k")
  case True
  from assms(1,3) have "isUnprocessed (fs ! j)" by simp
  with True assms(2) show ?thesis
    by (simp add: files_stateAfter_before processed_of_unprocessed)
next
  case False
  from assms(1,3) have "isUnprocessed (fs ! j)" by simp
  with False assms(3) show ?thesis
    by (simp add: files_stateAfter_from)
qed

lemma state_cases:
  "isDocumented f \<or> isFailed f \<or> isUnprocessed f
     \<longleftrightarrow> \<not> (documentedContent f \<noteq> None \<and> error f \<noteq> None)"
  by (auto simp add: isDocumented_def isFailed_def isUnprocessed_def)

lemma stateAfter_never_both:
  assumes "\<forall>f\<in>set fs. isUnprocessed f" and "k \<le> length fs"
    and "f \<in> set (files (stateAfter env ctx docLang fs k))"
  shows "isDocumented f \<or> isFailed f \<or> isUnprocessed f"
proof -
  from assms(3) obtain j where j: "j < length (files (stateAfter env ctx docLang fs k))"
    and f: "f = files (stateAfter env ctx docLang fs k) ! j"
    by (auto simp add: in_set_conv_nth)
  from j assms(2) have "j < length fs"
    by (simp add: files_stateAfter_length)
  with stateAfter_file_states [OF assms(1,2), of j env ctx docLang] f show ?thesis
    by (cases "j < k") auto
qed

lemma appState_contentLoaded: "appState (contentLoaded p i t app) = appState app"
  by (simp add: contentLoaded_def setProjectFiles_def Let_def)

lemma appState_handleFilesUpload: "appState (handleFilesUpload p ns app) = appState app"
  by (simp add: handleFilesUpload_def setProjectFiles_def)

lemma appState_toggleFileInclusion: "appState (toggleFileInclusion p n app) = appState app"
  by (simp add: toggleFileInclusion_def setProjectFiles_def Let_def)

lemma files_handleFilesUpload:
  "f \<in> set (allFilesOf (handleFilesUpload p ns app)) \<Longrightarrow>
     f \<in> set (allFilesOf app) \<or> isUnprocessed f"
  by (cases p)
    (auto simp add: handleFilesUpload_def setProjectFiles_def allFilesOf_def newProjectFile_def
      isUnprocessed_def)

lemma update_content_set:
  assumes "f \<in> set (fs[i := (fs ! i)\<lparr>content := t\<rparr>])" and "i < length fs"
  shows "\<exists>g\<in>set fs. documentedContent f = documentedContent g \<and> error f = error g"
proof -
  from assms(1) have "f = (fs ! i)\<lparr>content := t\<rparr> \<or> f \<in> set fs"
    using set_update_subset_insert [of fs i "(fs ! i)\<lparr>content := t\<rparr>"] by auto
  then show ?thesis
  proof
    assume "f = (fs ! i)\<lparr>content := t\<rparr>"
    with assms(2) show ?thesis by (intro bexI [of _ "fs ! i"]) simp_all
  next
    assume "f \<in> set fs"
    then show ?thesis by blast
  qed
qed

lemma files_contentLoaded:
  assumes "f \<in> set (allFilesOf (contentLoaded p i t app))"
  shows "\<exists>g\<in>set (allFilesOf app). documentedContent f = documentedContent g \<and> error f = error g"
proof (cases "i < length (projectFilesOf p app)")
  case False
  with assms show ?thesis by (auto simp add: contentLoaded_def Let_def)
next
  case True
  show ?thesis
  proof (cases p)
    case main
    with True assms have "f \<in> set ((mainProjectFiles app)[i := (mainProjectFiles app ! i)\<lparr>content := t\<rparr>])
        \<or> f \<in> set (frontendProjectFiles app)"
      by (auto simp add: contentLoaded_def Let_def projectFilesOf_def setProjectFiles_def allFilesOf_def)
    with True main show ?thesis
      using update_content_set [of f "mainProjectFiles app" i t]
      by (auto simp add: projectFilesOf_def allFilesOf_def)
  next
    case frontend
    with True assms have "f \<in> set ((frontendProjectFiles app)[i := (frontendProjectFiles app ! i)\<lparr>content := t\<rparr>])
        \<or> f \<in> set (mainProjectFiles app)"
      by (auto simp add: contentLoaded_def Let_def projectFilesOf_def setProjectFiles_def allFilesOf_def)
    with True frontend show ?thesis
      using update_content_set [of f "frontendProjectFiles app" i t]
      by (auto simp add: projectFilesOf_def allFilesOf_def)
  qed
qed

lemma files_toggleFileInclusion:
  assumes "f \<in> set (allFilesOf (toggleFileInclusion p n app))"
  shows "\<exists>g\<in>set (allFilesOf app). documentedContent f = documentedContent g \<and> error f = error g"
  using assms
  by (cases p)
    (auto simp add: toggleFileInclusion_def Let_def projectFilesOf_def setProjectFiles_def
      allFilesOf_def split: if_splits)

lemma analyzeStates_form:
  assumes "app' \<in> set (analyzeStates env app)"
  shows "\<exists>k\<le>length (allFilesOf app). app' = duringRun app
           (stateAfter env (buildContext (allFilesOf app)) (docLanguage app) (allFilesOf app) k)"
proof -
  from assms have ne: "allFilesOf app \<noteq> []"
    by (auto simp add: analyzeStates_def allFilesOf_def Let_def split: if_splits)
  have "analyzeStates env app = map (duringRun app)
      (map (stateAfter env (buildContext (allFilesOf app)) (docLanguage app) (allFilesOf app))
         [0..<Suc (processedCount env (allFilesOf app))])"
    using ne loopStates_run [of env "buildContext (allFilesOf app)" "docLanguage app" "allFilesOf app"]
    by (simp add: analyzeStates_def Let_def
        startRun_stateAfter [of app env "buildContext (allFilesOf app)" "docLanguage app"]
        flip: allFilesOf_def)
  with assms obtain k where "k \<le> processedCount env (allFilesOf app)"
    and "app' = duringRun app
           (stateAfter env (buildContext (allFilesOf app)) (docLanguage app) (allFilesOf app) k)"
    by (auto simp add: less_Suc_eq_le simp del: upt_Suc)
  with processedCount_le [of env "allFilesOf app"] show ?thesis
    by (intro exI [of _ k]) simp
qed

lemma reachable_invariant:
  "reachable app \<Longrightarrow>
     (appState app = uploading \<longrightarrow> (\<forall>f\<in>set (allFilesOf app). isUnprocessed f))
     \<and> (\<forall>f\<in>set (allFilesOf app). isDocumented f \<or> isFailed f \<or> isUnprocessed f)"
proof (induction rule: reachable.induct)
  case initial
  show ?case by (simp add: initialApp_def allFilesOf_def)
next
  case (upload app project fileNames)
  then have "\<forall>f\<in>set (allFilesOf (handleFilesUpload project fileNames app)). isUnprocessed f"
    by (blast dest: files_handleFilesUpload)
  then show ?case by blast
next
  case (fileRead app project i body)
  have "\<forall>f\<in>set (allFilesOf (contentLoaded project i body app)).
      \<exists>g\<in>set (allFilesOf app). documentedContent f = documentedContent g \<and> error f = error g"
    by (blast dest: files_contentLoaded)
  with fileRead.IH show ?case
    unfolding appState_contentLoaded
    by (fastforce simp add: isDocumented_def isFailed_def isUnprocessed_def)
next
  case (language app docLang)
  then show ?case by (simp add: allFilesOf_def)
next
  case (running app app' env)
  then have fresh: "\<forall>f\<in>set (allFilesOf app). isUnprocessed f" by simp
  from running(3) obtain k where k: "k \<le> length (allFilesOf app)"
    and app': "app' = duringRun app
           (stateAfter env (buildContext (allFilesOf app)) (docLanguage app) (allFilesOf app) k)"
    by (blast dest: analyzeStates_form)
  have "appState app' = loading"
    by (simp add: app' duringRun_def)
  moreover have "\<forall>f\<in>set (allFilesOf app'). isDocumented f \<or> isFailed f \<or> isUnprocessed f"
    unfolding app' allFilesOf_duringRun
    using stateAfter_never_both [OF fresh k] by blast
  ultimately show ?case by simp
next
  case (cancel app)
  then show ?case by (simp add: handleCancel_def allFilesOf_def)
next
  case (analyzed app env)
  then have fresh: "\<forall>f\<in>set (allFilesOf app). isUnprocessed f" by simp
  show ?case
  proof (cases "allFilesOf app = []")
    case True
    then show ?thesis by (simp add: handleAnalyze_def allFilesOf_def)
  next
    case False
    have "\<forall>f\<in>set (allFilesOf (fst (handleAnalyze env app))).
        isDocumented f \<or> isFailed f \<or> isUnprocessed f"
      unfolding allFilesOf_handleAnalyze [OF False]
      using stateAfter_never_both [OF fresh processedCount_le] by blast
    with False show ?thesis by (simp add: appState_handleAnalyze)
  qed
next
  case (toggled app project fileName)
  have "\<forall>f\<in>set (allFilesOf (toggleFileInclusion project fileName app)).
      \<exists>g\<in>set (allFilesOf app). documentedContent f = documentedContent g \<and> error f = error g"
    by (blast dest: files_toggleFileInclusion)
  with toggled show ?case
    unfolding appState_toggleFileInclusion
    by (fastforce simp add: isDocumented_def isFailed_def isUnprocessed_def)
next
  case (reset app)
  show ?case by (simp add: handleReset_def allFilesOf_def)
qed

lemma exactly_one_state:
  "isDocumented f \<or> isFailed f \<or> isUnprocessed f \<Longrightarrow>
     (isDocumented f \<and> \<not> isFailed f \<and> \<not> isUnprocessed f)
     \<or> (\<not> isDocumented f \<and> isFailed f \<and> \<not> isUnprocessed f)
     \<or> (\<not> isDocumented f \<and> \<not> isFailed f \<and> isUnprocessed f)"
  by (auto simp add: isDocumented_def isFailed_def isUnprocessed_def)

text \<open>
  Claim C1.  In every state the application can reach, the states during a run
  included, each file record is in exactly one of three states: documented
  (\<open>documentedContent\<close> set, \<open>error\<close> null), failed (\<open>error\<close> set, \<open>documentedContent\<close>
  null) or unprocessed (both null); so never both are set.  A run can only start in
  state \<open>uploading\<close>, where every record is unprocessed.  In a run over unprocessed
  records no state of the loop has a record with both fields set, and after the run
  each file the run has processed is documented or failed, and each file it has not
  processed is unprocessed, which happens only with the cancellation flag set.
\<close>

theorem file_record_states:
  "(reachable app \<longrightarrow>
      (\<forall>f\<in>set (allFilesOf app).
         ((isDocumented f \<and> \<not> isFailed f \<and> \<not> isUnprocessed f)
          \<or> (\<not> isDocumented f \<and> isFailed f \<and> \<not> isUnprocessed f)
          \<or> (\<not> isDocumented f \<and> \<not> isFailed f \<and> isUnprocessed f))
         \<and> \<not> (documentedContent f \<noteq> None \<and> error f \<noteq> None)))
   \<and> (reachable app \<and> appState app = uploading \<longrightarrow>
        (\<forall>f\<in>set (allFilesOf app). isUnprocessed f))
   \<and> ((\<forall>f\<in>set (allFilesOf app). isUnprocessed f) \<longrightarrow>
        (\<forall>app'\<in>set (analyzeStates env app). \<forall>f\<in>set (allFilesOf app').
           \<not> (documentedContent f \<noteq> None \<and> error f \<noteq> None))
        \<and> (\<forall>j<length (allFilesOf app).
             (j < processedCount env (allFilesOf app) \<longrightarrow>
                isDocumented (allFilesOf (fst (handleAnalyze env app)) ! j)
                \<or> isFailed (allFilesOf (fst (handleAnalyze env app)) ! j))
             \<and> (processedCount env (allFilesOf app) \<le> j \<longrightarrow>
                  isUnprocessed (allFilesOf (fst (handleAnalyze env app)) ! j)
                  \<and> isCancelledRef (fst (handleAnalyze env app)))))"
proof (intro conjI impI)
  assume "reachable app"
  then have "\<forall>f\<in>set (allFilesOf app). isDocumented f \<or> isFailed f \<or> isUnprocessed f"
    using reachable_invariant by blast
  then show "\<forall>f\<in>set (allFilesOf app).
         ((isDocumented f \<and> \<not> isFailed f \<and> \<not> isUnprocessed f)
          \<or> (\<not> isDocumented f \<and> isFailed f \<and> \<not> isUnprocessed f)
          \<or> (\<not> isDocumented f \<and> \<not> isFailed f \<and> isUnprocessed f))
         \<and> \<not> (documentedContent f \<noteq> None \<and> error f \<noteq> None)"
    using exactly_one_state state_cases by blast
next
  assume "reachable app \<and> appState app = uploading"
  then show "\<forall>f\<in>set (allFilesOf app). isUnprocessed f"
    using reachable_invariant by blast
next
  assume fresh: "\<forall>f\<in>set (allFilesOf app). isUnprocessed f"
  show "\<forall>app'\<in>set (analyzeStates env app). \<forall>f\<in>set (allFilesOf app').
           \<not> (documentedContent f \<noteq> None \<and> error f \<noteq> None)"
  proof (intro ballI)
    fix app' f
    assume "app' \<in> set (analyzeStates env app)" and f: "f \<in> set (allFilesOf app')"
    then obtain k where k: "k \<le> length (allFilesOf app)"
      and app': "app' = duringRun app
           (stateAfter env (buildContext (allFilesOf app)) (docLanguage app) (allFilesOf app) k)"
      by (blast dest: analyzeStates_form)
    from f have "isDocumented f \<or> isFailed f \<or> isUnprocessed f"
      unfolding app' allFilesOf_duringRun
      by (rule stateAfter_never_both [OF fresh k])
    then show "\<not> (documentedContent f \<noteq> None \<and> error f \<noteq> None)"
      by (simp add: state_cases)
  qed
next
  assume fresh: "\<forall>f\<in>set (allFilesOf app). isUnprocessed f"
  let ?fs = "allFilesOf app"
  let ?K = "processedCount env ?fs"
  show "\<forall>j<length ?fs.
           (j < ?K \<longrightarrow>
              isDocumented (allFilesOf (fst (handleAnalyze env app)) ! j)
              \<or> isFailed (allFilesOf (fst (handleAnalyze env app)) ! j))
           \<and> (?K \<le> j \<longrightarrow>
                isUnprocessed (allFilesOf (fst (handleAnalyze env app)) ! j)
                \<and> isCancelledRef (fst (handleAnalyze env app)))"
  proof (intro allI impI)
    fix j
    assume j: "j < length ?fs"
    then have ne: "?fs \<noteq> []" by auto
    note s = stateAfter_file_states [OF fresh processedCount_le j,
        of env env "buildContext ?fs" "docLanguage app"]
    have flag: "?K \<le> j \<longrightarrow> isCancelledRef (fst (handleAnalyze env app))"
    proof
      assume "?K \<le> j"
      with j have "?K < length ?fs" by simp
      then show "isCancelledRef (fst (handleAnalyze env app))"
        unfolding isCancelledRef_handleAnalyze [OF ne]
        by (rule cancelled_when_stopped_early)
    qed
    from s flag show "(j < ?K \<longrightarrow>
              isDocumented (allFilesOf (fst (handleAnalyze env app)) ! j)
              \<or> isFailed (allFilesOf (fst (handleAnalyze env app)) ! j))
           \<and> (?K \<le> j \<longrightarrow>
                isUnprocessed (allFilesOf (fst (handleAnalyze env app)) ! j)
                \<and> isCancelledRef (fst (handleAnalyze env app)))"
      unfolding allFilesOf_handleAnalyze [OF ne] by blast
  qed
qed

lemma reachable_fiveApp: "reachable fiveApp \<and> appState fiveApp = uploading"
proof -
  let ?u1 = "handleFilesUpload main [''a.js'', ''b.js'', ''c.js''] initialApp"
  let ?u2 = "handleFilesUpload frontend [''d.js'', ''e.js''] ?u1"
  let ?c1 = "contentLoaded main 0 ''a()'' ?u2"
  let ?c2 = "contentLoaded main 1 ''b()'' ?c1"
  let ?c3 = "contentLoaded main 2 ''c()'' ?c2"
  let ?c4 = "contentLoaded frontend 0 ''d()'' ?c3"
  have s0: "appState initialApp = uploading" by (simp add: initialApp_def)
  have r1: "reachable ?u1"
    by (rule reachable.upload [OF reachable.initial s0])
  have s1: "appState ?u1 = uploading" by (simp add: appState_handleFilesUpload appState_contentLoaded s0)
  have r2: "reachable ?u2" by (rule reachable.upload [OF r1 s1])
  have s2: "appState ?u2 = uploading" by (simp add: appState_handleFilesUpload appState_contentLoaded s0)
  have r3: "reachable ?c1" by (rule reachable.fileRead [OF r2]) (simp add: appState_handleFilesUpload appState_contentLoaded s0)
  have s3: "appState ?c1 = uploading" by (simp add: appState_handleFilesUpload appState_contentLoaded s0)
  have r4: "reachable ?c2" by (rule reachable.fileRead [OF r3]) (simp add: appState_handleFilesUpload appState_contentLoaded s0)
  have s4: "appState ?c2 = uploading" by (simp add: appState_handleFilesUpload appState_contentLoaded s0)
  have r5: "reachable ?c3" by (rule reachable.fileRead [OF r4]) (simp add: appState_handleFilesUpload appState_contentLoaded s0)
  have s5: "appState ?c3 = uploading" by (simp add: appState_handleFilesUpload appState_contentLoaded s0)
  have r6: "reachable ?c4" by (rule reachable.fileRead [OF r5]) (simp add: appState_handleFilesUpload appState_contentLoaded s0)
  have s6: "appState ?c4 = uploading" by (simp add: appState_handleFilesUpload appState_contentLoaded s0)
  have r7: "reachable (contentLoaded frontend 1 ''e()'' ?c4)"
    by (rule reachable.fileRead [OF r6]) (simp add: appState_handleFilesUpload appState_contentLoaded s0)
  have s7: "appState (contentLoaded frontend 1 ''e()'' ?c4) = uploading"
    by (simp add: appState_handleFilesUpload appState_contentLoaded s0)
  from r7 s7 show ?thesis by (simp add: fiveApp_def)
qed

theorem file_record_states_witness:
  "reachable (fst (handleAnalyze failSecondEnv fiveApp))
   \<and> allFilesOf (fst (handleAnalyze failSecondEnv fiveApp)) ! 1
       \<in> set (allFilesOf (fst (handleAnalyze failSecondEnv fiveApp)))
   \<and> \<not> (documentedContent (allFilesOf (fst (handleAnalyze failSecondEnv fiveApp)) ! 1) \<noteq> None
         \<and> error (allFilesOf (fst (handleAnalyze failSecondEnv fiveApp)) ! 1) \<noteq> None)
   \<and> isFailed (allFilesOf (fst (handleAnalyze failSecondEnv fiveApp)) ! 1)
   \<and> isDocumented (allFilesOf (fst (handleAnalyze cancelSecondEnv fiveApp)) ! 1)
   \<and> isUnprocessed (allFilesOf (fst (handleAnalyze cancelSecondEnv fiveApp)) ! 3)
   \<and> isCancelledRef (fst (handleAnalyze cancelSecondEnv fiveApp))"
proof -
  let ?X = "fst (handleAnalyze failSecondEnv fiveApp)"
  have r: "reachable ?X"
    using reachable_fiveApp by (blast intro: reachable.analyzed)
  have "(1::nat) < length (allFilesOf ?X)"
    by (simp add: final_length) code_simp
  then have mem: "allFilesOf ?X ! 1 \<in> set (allFilesOf ?X)"
    by (rule nth_mem)
  from file_record_states [of ?X] r mem
  have never: "\<not> (documentedContent (allFilesOf ?X ! 1) \<noteq> None \<and> error (allFilesOf ?X ! 1) \<noteq> None)"
    by blast
  have failed: "isFailed (allFilesOf ?X ! 1)"
    by code_simp
  have len: "(1::nat) < length (allFilesOf fiveApp) \<and> (3::nat) < length (allFilesOf fiveApp)"
    by code_simp
  have k: "processedCount cancelSecondEnv (allFilesOf fiveApp) = 2"
    by code_simp
  from file_record_states [of fiveApp cancelSecondEnv] reachable_fiveApp
  have t: "\<forall>j<length (allFilesOf fiveApp).
           (j < processedCount cancelSecondEnv (allFilesOf fiveApp) \<longrightarrow>
              isDocumented (allFilesOf (fst (handleAnalyze cancelSecondEnv fiveApp)) ! j)
              \<or> isFailed (allFilesOf (fst (handleAnalyze cancelSecondEnv fiveApp)) ! j))
           \<and> (processedCount cancelSecondEnv (allFilesOf fiveApp) \<le> j \<longrightarrow>
                isUnprocessed (allFilesOf (fst (handleAnalyze cancelSecondEnv fiveApp)) ! j)
                \<and> isCancelledRef (fst (handleAnalyze cancelSecondEnv fiveApp)))"
    by blast
  from t [rule_format, of 1] len k
  have "isDocumented (allFilesOf (fst (handleAnalyze cancelSecondEnv fiveApp)) ! 1)
      \<or> isFailed (allFilesOf (fst (handleAnalyze cancelSecondEnv fiveApp)) ! 1)"
    by simp
  moreover have "\<not> isFailed (allFilesOf (fst (handleAnalyze cancelSecondEnv fiveApp)) ! 1)"
    by code_simp
  ultimately have doc: "isDocumented (allFilesOf (fst (handleAnalyze cancelSecondEnv fiveApp)) ! 1)"
    by blast
  from t [rule_format, of 3] len k
  have rest: "isUnprocessed (allFilesOf (fst (handleAnalyze cancelSecondEnv fiveApp)) ! 3)
      \<and> isCancelledRef (fst (handleAnalyze cancelSecondEnv fiveApp))"
    by simp
  from r mem never failed doc rest show ?thesis by blast
qed

section \<open>The order of processing\<close>

lemma analyzeStates_run:
  assumes "allFilesOf app \<noteq> []"
  shows "analyzeStates env app
     = map (\<lambda>k. duringRun app
              (stateAfter env (buildContext (allFilesOf app)) (docLanguage app) (allFilesOf app) k))
         [0..<Suc (processedCount env (allFilesOf app))]"
proof -
  have "analyzeStates env app = map (duringRun app)
      (map (stateAfter env (buildContext (allFilesOf app)) (docLanguage app) (allFilesOf app))
         [0..<Suc (processedCount env (allFilesOf app))])"
    using assms
      loopStates_run [of env "buildContext (allFilesOf app)" "docLanguage app" "allFilesOf app"]
    by (simp add: analyzeStates_def Let_def
        startRun_stateAfter [of app env "buildContext (allFilesOf app)" "docLanguage app"]
        flip: allFilesOf_def)
  then show ?thesis
    by (simp only: map_map comp_def)
qed

text \<open>
  Claim C4.  A run over a non-empty combined list processes the files of grouping main
  in their order, then those of grouping frontend in their order.  The loop passes
  through one state more than the number of files it processes; in its \<open>k\<close>-th state
  exactly the files at the positions below \<open>k\<close> of the combined list have been
  processed (each has its \<open>documentedContent\<close> or its \<open>error\<close> written) and every other
  record is as before, and so it is after the run with the number of files processed.
  The progress messages and the requests follow the same positions.  The number of
  files processed is the whole list when Cancel is never pressed.
\<close>

theorem run_processes_in_order:
  assumes "allFilesOf app \<noteq> []"
  shows "progressLog (snd (handleAnalyze env app))
           = map (\<lambda>j. progressMessage j (length (allFilesOf app)) (allFilesOf app ! j))
               [0..<processedCount env (allFilesOf app)] @ [[]]
         \<and> requestLog (snd (handleAnalyze env app))
           = concat (map (\<lambda>j. requestsFor env (buildContext (allFilesOf app)) (docLanguage app) j
                                (allFilesOf app ! j))
               [0..<processedCount env (allFilesOf app)])
         \<and> processedCount env (allFilesOf app) \<le> length (allFilesOf app)
         \<and> ((\<forall>j<length (allFilesOf app). \<not> cancelPressed env j)
              \<longrightarrow> processedCount env (allFilesOf app) = length (allFilesOf app))
         \<and> allFilesOf app = mainProjectFiles app @ frontendProjectFiles app
         \<and> (\<forall>j<length (mainProjectFiles app). allFilesOf app ! j = mainProjectFiles app ! j)
         \<and> (\<forall>j<length (frontendProjectFiles app).
               allFilesOf app ! (length (mainProjectFiles app) + j) = frontendProjectFiles app ! j)
         \<and> length (analyzeStates env app) = Suc (processedCount env (allFilesOf app))
         \<and> (\<forall>k\<le>processedCount env (allFilesOf app).
               allFilesOf (analyzeStates env app ! k)
                 = map (\<lambda>j. processed env (buildContext (allFilesOf app)) (docLanguage app) j
                              (allFilesOf app ! j)) [0..<k]
                   @ drop k (allFilesOf app))
         \<and> allFilesOf (fst (handleAnalyze env app))
             = map (\<lambda>j. processed env (buildContext (allFilesOf app)) (docLanguage app) j
                          (allFilesOf app ! j)) [0..<processedCount env (allFilesOf app)]
               @ drop (processedCount env (allFilesOf app)) (allFilesOf app)
         \<and> (\<forall>j<processedCount env (allFilesOf app).
               documentedContent (allFilesOf (fst (handleAnalyze env app)) ! j) \<noteq> None
               \<or> error (allFilesOf (fst (handleAnalyze env app)) ! j) \<noteq> None)"
proof -
  let ?fs = "allFilesOf app"
  let ?K = "processedCount env ?fs"
  let ?ctx = "buildContext ?fs"
  let ?dl = "docLanguage app"
  have all: "(\<forall>j<length ?fs. \<not> cancelPressed env j) \<longrightarrow> ?K = length ?fs"
    by (simp add: processedCount_all cancelledDuring_def)
  have m: "\<forall>j<length (mainProjectFiles app). ?fs ! j = mainProjectFiles app ! j"
    by (simp add: allFilesOf_def nth_append)
  have f: "\<forall>j<length (frontendProjectFiles app).
               ?fs ! (length (mainProjectFiles app) + j) = frontendProjectFiles app ! j"
    by (simp add: allFilesOf_def)
  have le: "?K \<le> length ?fs"
    by (rule processedCount_le)
  have eq: "?fs = mainProjectFiles app @ frontendProjectFiles app"
    by (simp add: allFilesOf_def)
  have len: "length (analyzeStates env app) = Suc ?K"
    by (simp add: analyzeStates_run [OF assms])
  have states: "\<forall>k\<le>?K. allFilesOf (analyzeStates env app ! k)
                 = map (\<lambda>j. processed env ?ctx ?dl j (?fs ! j)) [0..<k] @ drop k ?fs"
  proof (intro allI impI)
    fix k
    assume "k \<le> ?K"
    then have "k < length [0..<Suc ?K]" by simp
    then have "analyzeStates env app ! k = duringRun app (stateAfter env ?ctx ?dl ?fs ([0..<Suc ?K] ! k))"
      unfolding analyzeStates_run [OF assms] by (rule nth_map)
    moreover from \<open>k \<le> ?K\<close> have "[0..<Suc ?K] ! k = k"
      using nth_upt [of 0 k "Suc ?K"] by simp
    ultimately show "allFilesOf (analyzeStates env app ! k)
                 = map (\<lambda>j. processed env ?ctx ?dl j (?fs ! j)) [0..<k] @ drop k ?fs"
      by (simp add: allFilesOf_duringRun stateAfter_def)
  qed
  have final: "allFilesOf (fst (handleAnalyze env app))
             = map (\<lambda>j. processed env ?ctx ?dl j (?fs ! j)) [0..<?K] @ drop ?K ?fs"
    by (simp add: allFilesOf_handleAnalyze [OF assms] stateAfter_def)
  have written: "\<forall>j<?K. documentedContent (allFilesOf (fst (handleAnalyze env app)) ! j) \<noteq> None
               \<or> error (allFilesOf (fst (handleAnalyze env app)) ! j) \<noteq> None"
  proof (intro allI impI)
    fix j
    assume "j < ?K"
    then have "allFilesOf (fst (handleAnalyze env app)) ! j = processed env ?ctx ?dl j (?fs ! j)"
      by (rule final_file_processed)
    then show "documentedContent (allFilesOf (fst (handleAnalyze env app)) ! j) \<noteq> None
               \<or> error (allFilesOf (fst (handleAnalyze env app)) ! j) \<noteq> None"
      using processed_written [of env ?ctx ?dl j "?fs ! j"] by simp
  qed
  from progressLog_handleAnalyze [OF assms] requestLog_handleAnalyze [OF assms] le all eq m f
    len states final written
  show ?thesis
    by blast
qed

theorem run_processes_in_order_witness:
  "map name (mainProjectFiles orderApp) = [''a.py'', ''b.readme'', ''c.js'']
   \<and> map name (frontendProjectFiles orderApp) = [''d.ts'']
   \<and> progressLog (snd (handleAnalyze silentEnv orderApp))
       = [''Analyzing 1/4: a.py'', ''Analyzing 2/4: b.readme'', ''Analyzing 3/4: c.js'',
          ''Analyzing 4/4: d.ts'', []]
   \<and> map contents (requestLog (snd (handleAnalyze silentEnv orderApp)))
       = [''a = 1'', ''c()'', ''let d'']
   \<and> length (analyzeStates silentEnv orderApp) = 5
   \<and> map documentedContent (allFilesOf (analyzeStates silentEnv orderApp ! 0))
       = [None, None, None, None]
   \<and> map documentedContent (allFilesOf (analyzeStates silentEnv orderApp ! 1))
       = [Some ''a = 1'', None, None, None]
   \<and> map documentedContent (allFilesOf (analyzeStates silentEnv orderApp ! 2))
       = [Some ''a = 1'', Some [], None, None]
   \<and> map documentedContent (allFilesOf (analyzeStates silentEnv orderApp ! 3))
       = [Some ''a = 1'', Some [], Some ''c()'', None]
   \<and> map documentedContent (allFilesOf (fst (handleAnalyze silentEnv orderApp)))
       = [Some ''a = 1'', Some [], Some ''c()'', Some ''let d'']"
proof -
  let ?fs = "allFilesOf orderApp"
  let ?p = "\<lambda>j. processed silentEnv (buildContext ?fs) (docLanguage orderApp) j (?fs ! j)"
  have ne: "?fs \<noteq> []"
    by code_simp
  have nc: "\<forall>j<length ?fs. \<not> cancelPressed silentEnv j"
    by (simp add: silentEnv_def)
  note t = run_processes_in_order [OF ne, of silentEnv]
  from t nc have k: "processedCount silentEnv ?fs = length ?fs"
    by blast
  have len: "length ?fs = 4"
    by code_simp
  have a: "map name (mainProjectFiles orderApp) = [''a.py'', ''b.readme'', ''c.js'']"
    by code_simp
  have b: "map name (frontendProjectFiles orderApp) = [''d.ts'']"
    by code_simp
  have "map (\<lambda>j. progressMessage j 4 (?fs ! j)) [0..<4]
      = [''Analyzing 1/4: a.py'', ''Analyzing 2/4: b.readme'', ''Analyzing 3/4: c.js'',
          ''Analyzing 4/4: d.ts'']"
    by code_simp
  with t have c: "progressLog (snd (handleAnalyze silentEnv orderApp))
       = [''Analyzing 1/4: a.py'', ''Analyzing 2/4: b.readme'', ''Analyzing 3/4: c.js'',
          ''Analyzing 4/4: d.ts'', []]"
    by (simp add: k len)
  have "map contents (concat (map (\<lambda>j. requestsFor silentEnv (buildContext ?fs)
          (docLanguage orderApp) j (?fs ! j)) [0..<4]))
      = [''a = 1'', ''c()'', ''let d'']"
    by code_simp
  with t have d: "map contents (requestLog (snd (handleAnalyze silentEnv orderApp)))
       = [''a = 1'', ''c()'', ''let d'']"
    by (simp add: k len)
  from t have e: "length (analyzeStates silentEnv orderApp) = 5"
    by (simp add: k len)
  from t have states: "\<forall>k\<le>processedCount silentEnv ?fs.
      allFilesOf (analyzeStates silentEnv orderApp ! k) = map ?p [0..<k] @ drop k ?fs"
    by blast
  have s0: "map documentedContent (allFilesOf (analyzeStates silentEnv orderApp ! 0))
       = [None, None, None, None]"
  proof -
    have "map documentedContent (map ?p [0..<0] @ drop 0 ?fs) = [None, None, None, None]"
      by code_simp
    with states [rule_format, of 0] show ?thesis by (simp add: k len)
  qed
  have s1: "map documentedContent (allFilesOf (analyzeStates silentEnv orderApp ! 1))
       = [Some ''a = 1'', None, None, None]"
  proof -
    have "map documentedContent (map ?p [0..<1] @ drop 1 ?fs) = [Some ''a = 1'', None, None, None]"
      by code_simp
    with states [rule_format, of 1] show ?thesis by (simp add: k len)
  qed
  have s2: "map documentedContent (allFilesOf (analyzeStates silentEnv orderApp ! 2))
       = [Some ''a = 1'', Some [], None, None]"
  proof -
    have "map documentedContent (map ?p [0..<2] @ drop 2 ?fs) = [Some ''a = 1'', Some [], None, None]"
      by code_simp
    with states [rule_format, of 2] show ?thesis by (simp add: k len)
  qed
  have s3: "map documentedContent (allFilesOf (analyzeStates silentEnv orderApp ! 3))
       = [Some ''a = 1'', Some [], Some ''c()'', None]"
  proof -
    have "map documentedContent (map ?p [0..<3] @ drop 3 ?fs)
        = [Some ''a = 1'', Some [], Some ''c()'', None]"
      by code_simp
    with states [rule_format, of 3] show ?thesis by (simp add: k len)
  qed
  have fin: "map documentedContent (allFilesOf (fst (handleAnalyze silentEnv orderApp)))
       = [Some ''a = 1'', Some [], Some ''c()'', Some ''let d'']"
  proof -
    have "map documentedContent (map ?p [0..<4] @ drop 4 ?fs)
        = [Some ''a = 1'', Some [], Some ''c()'', Some ''let d'']"
      by code_simp
    moreover from t have "allFilesOf (fst (handleAnalyze silentEnv orderApp))
        = map ?p [0..<processedCount silentEnv ?fs] @ drop (processedCount silentEnv ?fs) ?fs"
      by blast
    ultimately show ?thesis by (simp add: k len)
  qed
  from a b c d e s0 s1 s2 s3 fin show ?thesis by blast
qed

end
